theory Spec2Isabelle
  imports Main "HOL-Library.Sublist"
begin

section \<open>Values, references and declarations\<close>

text \<open>
  The module \<^verbatim>\<open>src/lib/object-context.ts\<close> works on untyped JavaScript values
  (\<^verbatim>\<open>input: any\<close>, \<^verbatim>\<open>value: any\<close>). They are modelled as a tree: the six
  JSON shapes, \<^verbatim>\<open>undefined\<close>, and an opaque function handle for the values whose
  \<^verbatim>\<open>typeof\<close> is \<^verbatim>\<open>'function'\<close>. Numbers are opaque scalars. An object is a plain
  data object: its list of own properties, with distinct names, in
  \<^verbatim>\<open>Object.getOwnPropertyNames\<close> order; none of them shadows the method
  \<^verbatim>\<open>hasOwnProperty\<close> that \<^verbatim>\<open>create\<close> calls on it.
\<close>

datatype jsval =
    JUndefined
  | JNull
  | JBool bool
  | JNum int
  | JStr string
  | JFun nat
  | JArr "jsval list"
  | JObj "(string \<times> jsval) list"

text \<open>\<^verbatim>\<open>x != null\<close> (loose inequality): false for \<^verbatim>\<open>null\<close> and \<^verbatim>\<open>undefined\<close> only.\<close>

fun not_nullish :: "jsval \<Rightarrow> bool" where
  "not_nullish JUndefined = False"
| "not_nullish JNull = False"
| "not_nullish _ = True"

text \<open>\<^verbatim>\<open>obj[key]\<close> on a plain object: the own property, or \<^verbatim>\<open>undefined\<close>.\<close>

definition prop_get :: "(string \<times> jsval) list \<Rightarrow> string \<Rightarrow> jsval" where
  "prop_get fs k = (case map_of fs k of None \<Rightarrow> JUndefined | Some v \<Rightarrow> v)"

text \<open>\<^verbatim>\<open>obj.hasOwnProperty(key)\<close> on a plain object.\<close>

definition hasOwnProperty :: "(string \<times> jsval) list \<Rightarrow> string \<Rightarrow> bool" where
  "hasOwnProperty fs k = (map_of fs k \<noteq> None)"

text \<open>
  \<^verbatim>\<open>Uri\<close> is imported from \<^verbatim>\<open>./object-provider\<close>; only its field \<^verbatim>\<open>protocol\<close>
  is read here (record fields carry a prefix: \<open>uri_protocol\<close>). \<^verbatim>\<open>Uri.tryParse\<close> is a parameter of every function that calls it:
  \<open>None\<close> stands for \<^verbatim>\<open>ret.success == false\<close>.
\<close>

record Uri =
  uri_protocol :: string
  uri_path :: string

text \<open>
  \<^verbatim>\<open>TypeDef\<close> and \<^verbatim>\<open>ProviderDef\<close> are imported declarations; the module reads
  \<^verbatim>\<open>def.typeName\<close> and \<^verbatim>\<open>def.protocol\<close> and nothing else, so the rest of a
  declaration is one opaque field.
\<close>

record TypeDef =
  typeName :: string
  typeBody :: string

record ProviderDef =
  providerProtocol :: string
  providerBody :: string

text \<open>
  Modelled from the spec: \<^verbatim>\<open>ObjectContextDependency\<close> (\<^verbatim>\<open>./named-object\<close>, not in
  the sources): "three disjoint sets of strings: type-dependencies,
  protocol-dependencies, object-dependencies". A JavaScript \<^verbatim>\<open>Set\<close> iterates in
  insertion order, so each set is a duplicate-free list. The type set receives whatever
  \<^verbatim>\<open>jsValue['_type']\<close> holds, so its members are values; \<^verbatim>\<open>Set.add\<close> compares
  scalars by value and objects, arrays and functions by identity (two occurrences are two
  members).
\<close>

record ObjectContextDependency =
  typeDependencies :: "jsval list"
  protocolDependencies :: "string list"
  objectDependencies :: "string list"

definition new_ObjectContextDependency :: ObjectContextDependency where
  "new_ObjectContextDependency =
     \<lparr>typeDependencies = [], protocolDependencies = [], objectDependencies = []\<rparr>"

fun by_identity :: "jsval \<Rightarrow> bool" where
  "by_identity (JArr _) = True"
| "by_identity (JObj _) = True"
| "by_identity (JFun _) = True"
| "by_identity _ = False"

definition set_add :: "'a \<Rightarrow> 'a list \<Rightarrow> 'a list" where
  "set_add x xs = (if x \<in> set xs then xs else xs @ [x])"

definition setTypeDependency :: "jsval \<Rightarrow> ObjectContextDependency \<Rightarrow> ObjectContextDependency" where
  "setTypeDependency t dep =
     dep\<lparr>typeDependencies :=
       (if by_identity t then typeDependencies dep @ [t] else set_add t (typeDependencies dep))\<rparr>"

definition setProtocolDependency :: "string \<Rightarrow> ObjectContextDependency \<Rightarrow> ObjectContextDependency" where
  "setProtocolDependency p dep = dep\<lparr>protocolDependencies := set_add p (protocolDependencies dep)\<rparr>"

definition setObjectDependency :: "string \<Rightarrow> ObjectContextDependency \<Rightarrow> ObjectContextDependency" where
  "setObjectDependency n dep = dep\<lparr>objectDependencies := set_add n (objectDependencies dep)\<rparr>"

text \<open>
  \<^verbatim>\<open>NamedObjectDef\<close> (\<^verbatim>\<open>./named-object\<close>): the module reads \<^verbatim>\<open>name\<close>,
  \<^verbatim>\<open>value\<close> and \<^verbatim>\<open>dependencies\<close>. The last is assigned by the dependency analysis
  only, so it is \<open>None\<close> (\<^verbatim>\<open>undefined\<close>) on a declaration that was never analysed.
\<close>

record NamedObjectDef =
  def_name :: string
  def_value :: jsval
  dependencies :: "ObjectContextDependency option"

section \<open>ScopedObjectContextDef: the lookups\<close>

text \<open>
  \<^verbatim>\<open>class ScopedObjectContextDef\<close>: the parent definition and the three declaration
  lists. The three \<^verbatim>\<open>Map\<close>s of the constructor are functions of the lists (each
  \<^verbatim>\<open>for (let def of ...) map.set(key, def)\<close> is a fold, so a later duplicate
  replaces an earlier one).
\<close>

datatype ScopedObjectContextDef =
  ScopedObjectContextDef
    (defParent: "ScopedObjectContextDef option")
    (typeDefs: "TypeDef list")
    (providerDefs: "ProviderDef list")
    (namedObjectDefs: "NamedObjectDef list")

definition typeNameToDef :: "ScopedObjectContextDef \<Rightarrow> (string \<rightharpoonup> TypeDef)" where
  "typeNameToDef d = fold (\<lambda>def m. m(typeName def \<mapsto> def)) (typeDefs d) Map.empty"

definition protocolNameToDef :: "ScopedObjectContextDef \<Rightarrow> (string \<rightharpoonup> ProviderDef)" where
  "protocolNameToDef d = fold (\<lambda>def m. m(providerProtocol def \<mapsto> def)) (providerDefs d) Map.empty"

definition objectNameToDef :: "ScopedObjectContextDef \<Rightarrow> (string \<rightharpoonup> NamedObjectDef)" where
  "objectNameToDef d = fold (\<lambda>def m. m(def_name def \<mapsto> def)) (namedObjectDefs d) Map.empty"

text \<open>
  \<^verbatim>\<open>Map.get(key)\<close> on a map whose keys are strings: a key that is not a string is
  never found (no coercion).
\<close>

fun map_get :: "(string \<rightharpoonup> 'a) \<Rightarrow> jsval \<Rightarrow> 'a option" where
  "map_get m (JStr s) = m s"
| "map_get m _ = None"

text \<open>
  \<^verbatim>\<open>getTypeDef(typeName, maxDepth = 32)\<close> and its two siblings. \<^verbatim>\<open>maxDepth\<close> is a
  JavaScript number, here an \<open>int\<close>: \<^verbatim>\<open>needsUpdate\<close> passes \<^verbatim>\<open>depth - 1\<close>.
\<close>

fun getTypeDef :: "ScopedObjectContextDef \<Rightarrow> jsval \<Rightarrow> int \<Rightarrow> TypeDef option" where
  "getTypeDef (ScopedObjectContextDef par tds pds ods) tn maxDepth =
     (case map_get (typeNameToDef (ScopedObjectContextDef par tds pds ods)) tn of
        Some def \<Rightarrow> Some def
      | None \<Rightarrow>
          (if maxDepth > 0 then
             (case par of
                None \<Rightarrow> None
              | Some p \<Rightarrow> getTypeDef p tn (maxDepth - 1))
           else None))"

fun getProviderDef :: "ScopedObjectContextDef \<Rightarrow> jsval \<Rightarrow> int \<Rightarrow> ProviderDef option" where
  "getProviderDef (ScopedObjectContextDef par tds pds ods) pn maxDepth =
     (case map_get (protocolNameToDef (ScopedObjectContextDef par tds pds ods)) pn of
        Some def \<Rightarrow> Some def
      | None \<Rightarrow>
          (if maxDepth > 0 then
             (case par of
                None \<Rightarrow> None
              | Some p \<Rightarrow> getProviderDef p pn (maxDepth - 1))
           else None))"

fun getNamedObjectDef :: "ScopedObjectContextDef \<Rightarrow> jsval \<Rightarrow> int \<Rightarrow> NamedObjectDef option" where
  "getNamedObjectDef (ScopedObjectContextDef par tds pds ods) name maxDepth =
     (case map_get (objectNameToDef (ScopedObjectContextDef par tds pds ods)) name of
        Some def \<Rightarrow> Some def
      | None \<Rightarrow>
          (if maxDepth > 0 then
             (case par of
                None \<Rightarrow> None
              | Some p \<Rightarrow> getNamedObjectDef p name (maxDepth - 1))
           else None))"

definition default_maxDepth :: int where
  "default_maxDepth = 32"

section \<open>Errors\<close>

text \<open>
  Every \<^verbatim>\<open>throw\<close> of the module is a value. The two selection errors carry the
  unsupported name and the input that \<^verbatim>\<open>JSON.stringify(input)\<close> echoes; the two
  analysis errors carry the offending name and the name of the named object; the error of
  the closure loop carries the names it lists. \<open>TypeError\<close> is the engine's own error
  for a property read on \<^verbatim>\<open>null\<close> or \<^verbatim>\<open>undefined\<close>. \<open>CollaboratorError\<close> is what
  a builder or resolver of the imported catalogs may raise.
\<close>

datatype error =
    UnsupportedProtocol string jsval
  | UnsupportedType jsval jsval
  | UnrecognizedType jsval string
  | UnrecognizedProtocol string string
  | UndefinedOrCyclic "string list"
  | TypeError
  | CollaboratorError string

section \<open>ScopedObjectContextDef: the dependency analysis\<close>

text \<open>
  \<^verbatim>\<open>analyzeDirectDependencies(dep, jsValue)\<close>. \<^verbatim>\<open>typeof null\<close> is \<^verbatim>\<open>'object'\<close>, so
  \<^verbatim>\<open>null\<close> takes the second branch, where \<^verbatim>\<open>jsValue['_type']\<close> raises. An array is an
  object with no \<^verbatim>\<open>_type\<close>; its own property names are its indices and \<^verbatim>\<open>length\<close>,
  a number, so the loop visits its elements. The loop over the property names of an
  object reads each property once, in order.
\<close>

fun analyzeDirectDependencies ::
    "(jsval \<Rightarrow> Uri option) \<Rightarrow> ObjectContextDependency \<Rightarrow> jsval \<Rightarrow> error + ObjectContextDependency"
  and analyzeProperties ::
    "(jsval \<Rightarrow> Uri option) \<Rightarrow> ObjectContextDependency \<Rightarrow> (string \<times> jsval) list \<Rightarrow> error + ObjectContextDependency"
  and analyzeElements ::
    "(jsval \<Rightarrow> Uri option) \<Rightarrow> ObjectContextDependency \<Rightarrow> jsval list \<Rightarrow> error + ObjectContextDependency"
where
  "analyzeDirectDependencies tryParse dep (JStr s) =
     (case tryParse (JStr s) of
        Some uri \<Rightarrow> Inr (setProtocolDependency (uri_protocol uri) dep)
      | None \<Rightarrow> Inr dep)"
| "analyzeDirectDependencies tryParse dep (JObj fs) =
     (let typeName = prop_get fs ''_type'';
          dep1 = (if not_nullish typeName then setTypeDependency typeName dep else dep)
      in analyzeProperties tryParse dep1 fs)"
| "analyzeDirectDependencies tryParse dep (JArr xs) = analyzeElements tryParse dep xs"
| "analyzeDirectDependencies tryParse dep JNull = Inl TypeError"
| "analyzeDirectDependencies tryParse dep JUndefined = Inr dep"
| "analyzeDirectDependencies tryParse dep (JBool b) = Inr dep"
| "analyzeDirectDependencies tryParse dep (JNum n) = Inr dep"
| "analyzeDirectDependencies tryParse dep (JFun f) = Inr dep"
| "analyzeProperties tryParse dep [] = Inr dep"
| "analyzeProperties tryParse dep (kv # fs) =
     (case analyzeDirectDependencies tryParse dep (snd kv) of
        Inl e \<Rightarrow> Inl e
      | Inr dep1 \<Rightarrow> analyzeProperties tryParse dep1 fs)"
| "analyzeElements tryParse dep [] = Inr dep"
| "analyzeElements tryParse dep (x # xs) =
     (case analyzeDirectDependencies tryParse dep x of
        Inl e \<Rightarrow> Inl e
      | Inr dep1 \<Rightarrow> analyzeElements tryParse dep1 xs)"

text \<open>
  \<^verbatim>\<open>analyzeNamedObjectDependencies\<close>, first pass (the loop of lines 431 to 450), for
  one declaration: a fresh dependency set, the direct dependencies, the type check, the
  protocol check. \<^verbatim>\<open>Set.forEach\<close> runs in insertion order and the first \<^verbatim>\<open>throw\<close>
  ends it, so each check is the first member that fails it.
\<close>

definition analyzeDeclaration ::
    "(jsval \<Rightarrow> Uri option) \<Rightarrow> ScopedObjectContextDef \<Rightarrow> NamedObjectDef \<Rightarrow> error + NamedObjectDef" where
  "analyzeDeclaration tryParse this def =
     (case analyzeDirectDependencies tryParse new_ObjectContextDependency (def_value def) of
        Inl e \<Rightarrow> Inl e
      | Inr dep \<Rightarrow>
          (case find (\<lambda>typeDep. getTypeDef this typeDep default_maxDepth = None) (typeDependencies dep) of
             Some typeDep \<Rightarrow> Inl (UnrecognizedType typeDep (def_name def))
           | None \<Rightarrow>
               (case find (\<lambda>protocolDep. getProviderDef this (JStr protocolDep) default_maxDepth = None)
                       (protocolDependencies dep) of
                  Some protocolDep \<Rightarrow> Inl (UnrecognizedProtocol protocolDep (def_name def))
                | None \<Rightarrow> Inr (def\<lparr>dependencies := Some dep\<rparr>))))"

fun firstPass ::
    "(jsval \<Rightarrow> Uri option) \<Rightarrow> ScopedObjectContextDef \<Rightarrow> NamedObjectDef list \<Rightarrow> error + NamedObjectDef list" where
  "firstPass tryParse this [] = Inr []"
| "firstPass tryParse this (def # defs) =
     (case analyzeDeclaration tryParse this def of
        Inl e \<Rightarrow> Inl e
      | Inr def1 \<Rightarrow>
          (case firstPass tryParse this defs of
             Inl e \<Rightarrow> Inl e
           | Inr defs1 \<Rightarrow> Inr (def1 # defs1)))"

text \<open>
  Second pass (lines 452 to 508). The declarations are objects that the loop writes
  through \<^verbatim>\<open>record.def\<close>: the list of declarations is the store and a record holds the
  position of its declaration. \<^verbatim>\<open>Object.keys\<close> returns the own enumerable string-keyed
  properties of its argument; a \<^verbatim>\<open>Set\<close> keeps its members in an internal slot and has
  none, so \<^verbatim>\<open>Object.keys(record.unresolvedDeps)\<close> is the empty array whatever the set
  holds.
\<close>

definition Object_keys_of_Set :: "string list \<Rightarrow> string list" where
  "Object_keys_of_Set s = []"

text \<open>
  An element of \<^verbatim>\<open>toResolve\<close>: the set \<^verbatim>\<open>unresolvedDeps\<close> and the reference
  \<^verbatim>\<open>def\<close>, a position in the list of declarations.
\<close>

record ResolveRecord =
  unresolvedDeps :: "string list"
  defRef :: nat

definition objectDependenciesAt :: "NamedObjectDef list \<Rightarrow> nat \<Rightarrow> error + string list" where
  "objectDependenciesAt defs i =
     (if i < length defs then
        (case dependencies (defs ! i) of
           None \<Rightarrow> Inl TypeError
         | Some dep \<Rightarrow> Inr (objectDependencies dep))
      else Inl TypeError)"

definition setObjectDependencyAt :: "nat \<Rightarrow> string \<Rightarrow> NamedObjectDef list \<Rightarrow> NamedObjectDef list" where
  "setObjectDependencyAt i depName defs =
     (if i < length defs then
        defs[i := (defs ! i)\<lparr>dependencies := map_option (setObjectDependency depName) (dependencies (defs ! i))\<rparr>]
      else defs)"

definition nameAt :: "NamedObjectDef list \<Rightarrow> nat \<Rightarrow> string" where
  "nameAt defs i = (if i < length defs then def_name (defs ! i) else [])"

record Resolution =
  resolved :: "string \<rightharpoonup> string list"
  toResolve :: "ResolveRecord list"

fun createToResolve :: "NamedObjectDef list \<Rightarrow> nat \<Rightarrow> Resolution \<Rightarrow> error + Resolution" where
  "createToResolve [] i st = Inr st"
| "createToResolve (def # defs) i st =
     (case dependencies def of
        None \<Rightarrow> Inl TypeError
      | Some dep \<Rightarrow>
          (let objectDeps = objectDependencies dep in
           if length objectDeps \<noteq> 0 then
             createToResolve defs (Suc i)
               (st\<lparr>toResolve := toResolve st @ [\<lparr>unresolvedDeps = fold set_add objectDeps [], defRef = i\<rparr>]\<rparr>)
           else
             createToResolve defs (Suc i) (st\<lparr>resolved := (resolved st)(def_name def \<mapsto> objectDeps)\<rparr>)))"

fun absorbClosures ::
    "(string \<rightharpoonup> string list) \<Rightarrow> string list \<Rightarrow> ResolveRecord \<Rightarrow> NamedObjectDef list
      \<Rightarrow> ResolveRecord \<times> NamedObjectDef list" where
  "absorbClosures res [] record defs = (record, defs)"
| "absorbClosures res (dep # deps) record defs =
     (case res dep of
        None \<Rightarrow> absorbClosures res deps record defs
      | Some depClosure \<Rightarrow>
          absorbClosures res deps
            (record\<lparr>unresolvedDeps := removeAll dep (unresolvedDeps record)\<rparr>)
            (fold (setObjectDependencyAt (defRef record)) depClosure defs))"

record Round =
  roundDefs :: "NamedObjectDef list"
  roundResolved :: "string \<rightharpoonup> string list"
  remaining :: "ResolveRecord list"
  resolvedThisRound :: nat

definition resolveRecord :: "ResolveRecord \<Rightarrow> Round \<Rightarrow> error + Round" where
  "resolveRecord record st =
     (let keys = Object_keys_of_Set (unresolvedDeps record);
          absorbed = absorbClosures (roundResolved st) keys record (roundDefs st);
          record1 = fst absorbed;
          defs1 = snd absorbed
      in if length keys = 0 then
           (case objectDependenciesAt defs1 (defRef record1) of
              Inl e \<Rightarrow> Inl e
            | Inr closure \<Rightarrow>
                Inr (st\<lparr>roundDefs := defs1,
                        roundResolved := (roundResolved st)(nameAt defs1 (defRef record1) \<mapsto> closure),
                        resolvedThisRound := resolvedThisRound st + 1\<rparr>))
         else Inr (st\<lparr>roundDefs := defs1, remaining := remaining st @ [record1]\<rparr>))"

fun resolveRound :: "ResolveRecord list \<Rightarrow> Round \<Rightarrow> error + Round" where
  "resolveRound [] st = Inr st"
| "resolveRound (record # records) st =
     (case resolveRecord record st of
        Inl e \<Rightarrow> Inl e
      | Inr st1 \<Rightarrow> resolveRound records st1)"

text \<open>
  Each record of a round is counted once, in \<^verbatim>\<open>remaining\<close> or in
  \<^verbatim>\<open>resolvedThisRound\<close>: a round that does not throw leaves fewer records, so the
  \<^verbatim>\<open>while\<close> loop ends.
\<close>

lemma resolveRecord_count:
  "resolveRecord record st = Inr st1 \<Longrightarrow>
     length (remaining st1) + resolvedThisRound st1 = Suc (length (remaining st) + resolvedThisRound st)"
  by (auto simp: resolveRecord_def Let_def split: if_splits sum.splits)

lemma resolveRound_count:
  "resolveRound records st = Inr st1 \<Longrightarrow>
     length (remaining st1) + resolvedThisRound st1 = length records + length (remaining st) + resolvedThisRound st"
proof (induction records arbitrary: st)
  case Nil
  then show ?case by simp
next
  case (Cons r rs)
  then show ?case
    by (auto split: sum.splits dest!: resolveRecord_count)
qed

function resolveLoop ::
    "ResolveRecord list \<Rightarrow> NamedObjectDef list \<Rightarrow> (string \<rightharpoonup> string list) \<Rightarrow> error + NamedObjectDef list" where
  "resolveLoop records defs res =
     (if length records = 0 then Inr defs
      else
        (case resolveRound records
                \<lparr>roundDefs = defs, roundResolved = res, remaining = [], resolvedThisRound = 0\<rparr> of
           Inl e \<Rightarrow> Inl e
         | Inr st \<Rightarrow>
             if resolvedThisRound st = 0 then
               Inl (UndefinedOrCyclic (map (\<lambda>obj. nameAt defs (defRef obj)) records))
             else resolveLoop (remaining st) (roundDefs st) (roundResolved st)))"
  by pat_completeness auto
termination
proof (relation "measure (\<lambda>(records, defs, res). length records)")
  show "wf (measure (\<lambda>(records, defs, res). length records))" by simp
next
  fix records :: "ResolveRecord list" and defs res st
  assume "length records \<noteq> 0"
    and r: "resolveRound records
       \<lparr>roundDefs = defs, roundResolved = res, remaining = [], resolvedThisRound = 0\<rparr> = Inr st"
    and nz: "resolvedThisRound st \<noteq> 0"
  from resolveRound_count[OF r] nz
  show "((remaining st, roundDefs st, roundResolved st), (records, defs, res))
          \<in> measure (\<lambda>(records, defs, res). length records)"
    by simp
qed

text \<open>The equation of the loop is unfolded by hand, one round at a time.\<close>

declare resolveLoop.simps [simp del]

definition secondPass :: "NamedObjectDef list \<Rightarrow> error + NamedObjectDef list" where
  "secondPass defs =
     (case createToResolve defs 0 \<lparr>resolved = Map.empty, toResolve = []\<rparr> of
        Inl e \<Rightarrow> Inl e
      | Inr st \<Rightarrow> resolveLoop (toResolve st) defs (resolved st))"

definition analyzeNamedObjectDependencies ::
    "(jsval \<Rightarrow> Uri option) \<Rightarrow> ScopedObjectContextDef \<Rightarrow> error + NamedObjectDef list" where
  "analyzeNamedObjectDependencies tryParse this =
     (case firstPass tryParse this (namedObjectDefs this) of
        Inl e \<Rightarrow> Inl e
      | Inr defs \<Rightarrow> secondPass defs)"

definition new_ScopedObjectContextDef ::
    "(jsval \<Rightarrow> Uri option) \<Rightarrow> ScopedObjectContextDef option \<Rightarrow> TypeDef list \<Rightarrow> ProviderDef list
      \<Rightarrow> NamedObjectDef list \<Rightarrow> bool \<Rightarrow> error + ScopedObjectContextDef" where
  "new_ScopedObjectContextDef tryParse parentDefinition tds pds ods enableDependencyAnalysis =
     (let this = ScopedObjectContextDef parentDefinition tds pds ods in
      if enableDependencyAnalysis then
        (case analyzeNamedObjectDependencies tryParse this of
           Inl e \<Rightarrow> Inl e
         | Inr ods1 \<Rightarrow> Inr (ScopedObjectContextDef parentDefinition tds pds ods1))
      else Inr this)"

section \<open>ScopedObjectContext\<close>

text \<open>
  \<^verbatim>\<open>NamedObject\<close> (\<^verbatim>\<open>./named-object\<close>): the object literal that \<^verbatim>\<open>get\<close> builds has
  the fields \<^verbatim>\<open>def\<close>, \<^verbatim>\<open>value\<close> and \<^verbatim>\<open>scope\<close>.
\<close>

record NamedObject =
  obj_def :: NamedObjectDef
  obj_value :: jsval
  obj_scope :: string

text \<open>
  Modelled from the spec: \<^verbatim>\<open>NamedObjectRegistry\<close> (\<^verbatim>\<open>./named-object\<close>, not in the
  sources), the "Named-value catalog" that "exposes \<^verbatim>\<open>get(name)\<close>,
  \<^verbatim>\<open>insert(materializedObject)\<close>, \<^verbatim>\<open>forEach(callback)\<close>": the objects a scope
  holds, in insertion order and looked up by the name of their declaration. The spec
  leaves open what an insert under a name the catalog holds already does; here it takes
  that entry's place, as in a map keyed by name.
\<close>

definition registry_get :: "NamedObject list \<Rightarrow> string \<Rightarrow> NamedObject option" where
  "registry_get reg n = find (\<lambda>obj. def_name (obj_def obj) = n) reg"

fun registry_insert :: "NamedObject \<Rightarrow> NamedObject list \<Rightarrow> NamedObject list" where
  "registry_insert obj [] = [obj]"
| "registry_insert obj (x # xs) =
     (if def_name (obj_def x) = def_name (obj_def obj) then obj # xs
      else x # registry_insert obj xs)"

text \<open>
  \<^verbatim>\<open>class ScopedObjectContext\<close>. \<^verbatim>\<open>_objectFactory\<close> and \<^verbatim>\<open>_objectProvider\<close> are
  instances of the imported \<^verbatim>\<open>TypeRegistry\<close> and \<^verbatim>\<open>ProviderRegistry\<close>: here a handle,
  or \<open>None\<close> for \<^verbatim>\<open>null\<close>. A context holds its parent, so a value of this type is the
  whole chain from a scope to the root; a method that writes \<^verbatim>\<open>this._namedObjects\<close>
  returns the context it leaves.
\<close>

datatype ScopedObjectContext =
  ScopedObjectContext
    (ctx_scope: string)
    (ctx_baseDir: string)
    (ctx_parent: "ScopedObjectContext option")
    (ctx_def: ScopedObjectContextDef)
    (objectFactory: "nat option")
    (objectProvider: "nat option")
    (namedObjects: "NamedObject list")

text \<open>
  The argument of \<^verbatim>\<open>provider.provide\<close>: one \<^verbatim>\<open>Uri\<close> for a string input, the array of
  them for an array input.
\<close>

datatype ProvideArg = OneUri Uri | ManyUris "Uri list"

text \<open>
  The imported collaborators, parameters of the model. \<^verbatim>\<open>factory.create(input, this)\<close>
  and \<^verbatim>\<open>provider.provide(uris, this)\<close> receive the context and may call its methods, so
  they return the context they leave together with their value or error.
\<close>

record Collaborators =
  tryParse :: "jsval \<Rightarrow> Uri option"
  factory_supports :: "nat \<Rightarrow> jsval \<Rightarrow> bool"
  factory_create :: "nat \<Rightarrow> jsval \<Rightarrow> ScopedObjectContext \<Rightarrow> (error + jsval) \<times> ScopedObjectContext"
  provider_supports :: "nat \<Rightarrow> string \<Rightarrow> bool"
  provider_provide :: "nat \<Rightarrow> ProvideArg \<Rightarrow> ScopedObjectContext \<Rightarrow> (error + jsval) \<times> ScopedObjectContext"

text \<open>
  \<^verbatim>\<open>selectProvider(uri, input)\<close>: the \<^verbatim>\<open>for\<close> loop from \<^verbatim>\<open>this\<close> along
  \<^verbatim>\<open>_parent\<close>, then the \<^verbatim>\<open>throw\<close>. Every caller passes a parsed \<^verbatim>\<open>Uri\<close>, or
  \<^verbatim>\<open>uris[0]\<close>; \<open>None\<close> is the \<^verbatim>\<open>undefined\<close> that \<^verbatim>\<open>uris[0]\<close> of an empty array
  would be, for which \<^verbatim>\<open>uri.protocol\<close> in the message raises.
\<close>

fun findProvider :: "Collaborators \<Rightarrow> ScopedObjectContext option \<Rightarrow> string \<Rightarrow> nat option" where
  "findProvider C None p = None"
| "findProvider C (Some (ScopedObjectContext sc bd par d fa pr reg)) p =
     (case pr of
        None \<Rightarrow> findProvider C par p
      | Some provider \<Rightarrow>
          if provider_supports C provider p then Some provider else findProvider C par p)"

definition selectProvider :: "Collaborators \<Rightarrow> ScopedObjectContext \<Rightarrow> Uri option \<Rightarrow> jsval \<Rightarrow> error + nat" where
  "selectProvider C this uri input =
     (case uri of
        None \<Rightarrow> Inl TypeError
      | Some u \<Rightarrow>
          (case findProvider C (Some this) (uri_protocol u) of
             Some provider \<Rightarrow> Inr provider
           | None \<Rightarrow> Inl (UnsupportedProtocol (uri_protocol u) input)))"

fun findFactory :: "Collaborators \<Rightarrow> ScopedObjectContext option \<Rightarrow> jsval \<Rightarrow> nat option" where
  "findFactory C None tn = None"
| "findFactory C (Some (ScopedObjectContext sc bd par d fa pr reg)) tn =
     (case fa of
        None \<Rightarrow> findFactory C par tn
      | Some factory \<Rightarrow>
          if factory_supports C factory tn then Some factory else findFactory C par tn)"

definition selectFactory :: "Collaborators \<Rightarrow> ScopedObjectContext \<Rightarrow> jsval \<Rightarrow> jsval \<Rightarrow> error + nat" where
  "selectFactory C this tn input =
     (case findFactory C (Some this) tn of
        Some factory \<Rightarrow> Inr factory
      | None \<Rightarrow> Inl (UnsupportedType tn input))"

text \<open>
  \<^verbatim>\<open>input.every(uri => ...)\<close>: the parsed references, or \<open>None\<close> at the first element
  that does not parse.
\<close>

fun parseEvery :: "(jsval \<Rightarrow> Uri option) \<Rightarrow> jsval list \<Rightarrow> Uri list option" where
  "parseEvery parse [] = Some []"
| "parseEvery parse (x # xs) =
     (case parse x of
        None \<Rightarrow> None
      | Some uri \<Rightarrow>
          (case parseEvery parse xs of
             None \<Rightarrow> None
           | Some uris \<Rightarrow> Some (uri # uris)))"

text \<open>
  \<^verbatim>\<open>create(input)\<close>, branch by branch. \<^verbatim>\<open>typeof null\<close> is \<^verbatim>\<open>'object'\<close>, so \<^verbatim>\<open>null\<close>
  reaches \<^verbatim>\<open>input.hasOwnProperty\<close> (and \<^verbatim>\<open>input[0].hasOwnProperty\<close>), which raises.
  An array in first position is an object with no own \<^verbatim>\<open>_type\<close>.
\<close>

definition createTyped ::
    "Collaborators \<Rightarrow> ScopedObjectContext \<Rightarrow> (string \<times> jsval) list \<Rightarrow> jsval
      \<Rightarrow> (error + jsval) \<times> ScopedObjectContext" where
  "createTyped C this fs input =
     (if hasOwnProperty fs ''_type'' then
        (case selectFactory C this (prop_get fs ''_type'') input of
           Inl e \<Rightarrow> (Inl e, this)
         | Inr factory \<Rightarrow> factory_create C factory input this)
      else (Inr input, this))"

definition create :: "Collaborators \<Rightarrow> ScopedObjectContext \<Rightarrow> jsval \<Rightarrow> (error + jsval) \<times> ScopedObjectContext" where
  "create C this input =
     (case input of
        JArr xs \<Rightarrow>
          (case xs of
             [] \<Rightarrow> (Inr input, this)
           | x # rest \<Rightarrow>
               (case x of
                  JStr s \<Rightarrow>
                    (case parseEvery (tryParse C) xs of
                       None \<Rightarrow> (Inr input, this)
                     | Some uris \<Rightarrow>
                         (case selectProvider C this (case uris of [] \<Rightarrow> None | u # us \<Rightarrow> Some u) input of
                            Inl e \<Rightarrow> (Inl e, this)
                          | Inr provider \<Rightarrow> provider_provide C provider (ManyUris uris) this))
                | JObj fs \<Rightarrow> createTyped C this fs input
                | JArr ys \<Rightarrow> (Inr input, this)
                | JNull \<Rightarrow> (Inl TypeError, this)
                | _ \<Rightarrow> (Inr input, this)))
      | JStr s \<Rightarrow>
          (case tryParse C input of
             Some uri \<Rightarrow>
               (case selectProvider C this (Some uri) input of
                  Inl e \<Rightarrow> (Inl e, this)
                | Inr provider \<Rightarrow> provider_provide C provider (OneUri uri) this)
           | None \<Rightarrow> (Inr input, this))
      | JObj fs \<Rightarrow> createTyped C this fs input
      | JNull \<Rightarrow> (Inl TypeError, this)
      | _ \<Rightarrow> (Inr input, this))"

text \<open>
  \<^verbatim>\<open>needsUpdate(namedObject, depth)\<close>. \<^verbatim>\<open>def.dependencies\<close> is read inside each
  guarded block, so a declaration without dependencies raises only where a guard holds.
  Each \<^verbatim>\<open>for\<close> loop returns at the first dependency that an override answers.
\<close>

definition needsUpdate :: "ScopedObjectContext \<Rightarrow> NamedObject \<Rightarrow> int \<Rightarrow> error + bool" where
  "needsUpdate this namedObject depth =
     (if ctx_parent this = None then Inr False
      else
        (let def = obj_def namedObject;
             overrides = ctx_def this
         in
           (case (if length (typeDefs (ctx_def this)) \<noteq> 0 then
                    (case dependencies def of
                       None \<Rightarrow> Inl TypeError
                     | Some deps \<Rightarrow>
                         Inr (list_ex (\<lambda>typeDep. getTypeDef overrides typeDep (depth - 1) \<noteq> None)
                                (typeDependencies deps)))
                  else Inr False) of
              Inl e \<Rightarrow> Inl e
            | Inr True \<Rightarrow> Inr True
            | Inr False \<Rightarrow>
                (case (if length (providerDefs (ctx_def this)) \<noteq> 0 then
                         (case dependencies def of
                            None \<Rightarrow> Inl TypeError
                          | Some deps \<Rightarrow>
                              Inr (list_ex (\<lambda>providerDep. getProviderDef overrides (JStr providerDep) (depth - 1) \<noteq> None)
                                     (protocolDependencies deps)))
                       else Inr False) of
                   Inl e \<Rightarrow> Inl e
                 | Inr True \<Rightarrow> Inr True
                 | Inr False \<Rightarrow>
                     (if length (namedObjectDefs (ctx_def this)) \<noteq> 0 then
                        (case dependencies def of
                           None \<Rightarrow> Inl TypeError
                         | Some deps \<Rightarrow>
                             Inr (list_ex (\<lambda>objectDep. getNamedObjectDef overrides (JStr objectDep) (depth - 1) \<noteq> None)
                                    (objectDependencies deps)))
                      else Inr False)))))"

text \<open>
  \<^verbatim>\<open>get(name)\<close>. \<open>rebuild\<close> is the body of \<^verbatim>\<open>if (this.needsUpdate(...))\<close>: the
  object literal, whose \<^verbatim>\<open>value\<close> is \<^verbatim>\<open>this.create(namedObject.def.value)\<close>, and the
  insert into \<^verbatim>\<open>this._namedObjects\<close>. \<open>getFromParents\<close> is the \<^verbatim>\<open>while\<close> loop over
  \<^verbatim>\<open>parent\<close> with its counter \<^verbatim>\<open>depth\<close>. \<open>Inr None\<close> is the \<^verbatim>\<open>null\<close> of a name
  found nowhere.
\<close>

definition insertNamedObject :: "NamedObject \<Rightarrow> ScopedObjectContext \<Rightarrow> ScopedObjectContext" where
  "insertNamedObject obj this =
     (case this of ScopedObjectContext sc bd par d fa pr reg \<Rightarrow>
        ScopedObjectContext sc bd par d fa pr (registry_insert obj reg))"

definition rebuild ::
    "Collaborators \<Rightarrow> ScopedObjectContext \<Rightarrow> NamedObject
      \<Rightarrow> (error + NamedObject option) \<times> ScopedObjectContext" where
  "rebuild C this namedObject =
     (case create C this (def_value (obj_def namedObject)) of
        (Inl e, this1) \<Rightarrow> (Inl e, this1)
      | (Inr v, this1) \<Rightarrow>
          (let rebuilt = \<lparr>obj_def = obj_def namedObject, obj_value = v, obj_scope = ctx_scope this\<rparr>
           in (Inr (Some rebuilt), insertNamedObject rebuilt this1)))"

fun getFromParents ::
    "Collaborators \<Rightarrow> ScopedObjectContext \<Rightarrow> ScopedObjectContext option \<Rightarrow> string \<Rightarrow> int
      \<Rightarrow> (error + NamedObject option) \<times> ScopedObjectContext" where
  "getFromParents C this None n depth = (Inr None, this)"
| "getFromParents C this (Some (ScopedObjectContext sc bd par d fa pr reg)) n depth =
     (case registry_get reg n of
        Some namedObject \<Rightarrow>
          (case needsUpdate this namedObject depth of
             Inl e \<Rightarrow> (Inl e, this)
           | Inr True \<Rightarrow> rebuild C this namedObject
           | Inr False \<Rightarrow> (Inr (Some namedObject), this))
      | None \<Rightarrow> getFromParents C this par n (depth + 1))"

definition get ::
    "Collaborators \<Rightarrow> ScopedObjectContext \<Rightarrow> string \<Rightarrow> (error + NamedObject option) \<times> ScopedObjectContext" where
  "get C this n =
     (case registry_get (namedObjects this) n of
        Some namedObject \<Rightarrow> (Inr (Some namedObject), this)
      | None \<Rightarrow> getFromParents C this (ctx_parent this) n 1)"

text \<open>
  \<^verbatim>\<open>forEach(callback)\<close>: the result is the list of the objects the callback receives,
  in call order, for a callback that leaves the registries alone. \<open>visitObject\<close> is
  the arrow function given to the registry's \<^verbatim>\<open>forEach\<close>; its state is the set
  \<^verbatim>\<open>visited\<close> and the calls made so far.
\<close>

definition visitObject :: "NamedObject \<Rightarrow> string list \<times> NamedObject list \<Rightarrow> string list \<times> NamedObject list" where
  "visitObject obj st =
     (if def_name (obj_def obj) \<notin> set (fst st)
      then (set_add (def_name (obj_def obj)) (fst st), snd st @ [obj])
      else st)"

fun forEachScope ::
    "ScopedObjectContext option \<Rightarrow> string list \<times> NamedObject list \<Rightarrow> string list \<times> NamedObject list" where
  "forEachScope None st = st"
| "forEachScope (Some (ScopedObjectContext sc bd par d fa pr reg)) st =
     forEachScope par (fold visitObject reg st)"

definition forEach :: "ScopedObjectContext \<Rightarrow> NamedObject list" where
  "forEach this = snd (forEachScope (Some this) ([], []))"

section \<open>Notions the properties are stated with\<close>

text \<open>
  The chain of definitions from a definition to its last ancestor, nearest first, and the
  part of it that a lookup with budget \<open>n\<close> can reach: the definition itself and at
  most \<open>n\<close> ancestors.
\<close>

fun def_chain :: "ScopedObjectContextDef \<Rightarrow> ScopedObjectContextDef list" where
  "def_chain (ScopedObjectContextDef None tds pds ods) = [ScopedObjectContextDef None tds pds ods]"
| "def_chain (ScopedObjectContextDef (Some p) tds pds ods) =
     ScopedObjectContextDef (Some p) tds pds ods # def_chain p"

definition reachable :: "ScopedObjectContextDef \<Rightarrow> int \<Rightarrow> ScopedObjectContextDef list" where
  "reachable d n = take (Suc (nat n)) (def_chain d)"

text \<open>The declaration of the nearest definition of a list that maps the name, if any.\<close>

fun nearest :: "('d \<Rightarrow> 'a option) \<Rightarrow> 'd list \<Rightarrow> 'a option" where
  "nearest local [] = None"
| "nearest local (d # ds) = (case local d of Some x \<Rightarrow> Some x | None \<Rightarrow> nearest local ds)"

text \<open>
  The first ancestor, walking outward, whose registry holds the name: the object it
  holds, the number of hops from the requester, and the ancestor itself (the owner).
\<close>

fun firstHit ::
    "ScopedObjectContext option \<Rightarrow> string \<Rightarrow> int \<Rightarrow> (NamedObject \<times> int \<times> ScopedObjectContext) option" where
  "firstHit None n depth = None"
| "firstHit (Some (ScopedObjectContext sc bd par d fa pr reg)) n depth =
     (case registry_get reg n of
        Some obj \<Rightarrow> Some (obj, depth, ScopedObjectContext sc bd par d fa pr reg)
      | None \<Rightarrow> firstHit par n (depth + 1))"


text \<open>
  The chain of contexts from a context to the root, nearest first, and "no scope of the
  chain supports the type (the protocol)": each catalog is absent or answers no.
\<close>

fun ctx_chain :: "ScopedObjectContext \<Rightarrow> ScopedObjectContext list" where
  "ctx_chain (ScopedObjectContext sc bd None d fa pr reg) = [ScopedObjectContext sc bd None d fa pr reg]"
| "ctx_chain (ScopedObjectContext sc bd (Some p) d fa pr reg) =
     ScopedObjectContext sc bd (Some p) d fa pr reg # ctx_chain p"



text \<open>Every named object held in the chain, nearest scope first, each registry in its order.\<close>

definition allObjects :: "ScopedObjectContext \<Rightarrow> NamedObject list" where
  "allObjects this = concat (map namedObjects (ctx_chain this))"

subsection \<open>An example chain\<close>

text \<open>
  The example of the specification: the global scope declares the builder \<open>Number\<close>
  and the named object \<open>base\<close>, whose raw value carries the tag \<open>Number\<close>, and a
  second named object \<open>limit\<close> with no dependency; the application scope overrides
  \<open>Number\<close>; a request scope declares nothing, and another one declares a builder
  \<open>Other\<close>. The global registry holds the two objects as built there; the other
  registries are empty. The builder catalogs of the global and of the application scope
  (handles 0 and 1) support \<open>Number\<close>, the one of the second request scope (handle
  3) supports \<open>Other\<close>; a builder answers with a value that records its catalog, and
  no resolver is registered.
  The reference parser takes the token before the first colon as the protocol.
\<close>

definition exampleParse :: "jsval \<Rightarrow> Uri option" where
  "exampleParse v =
     (case v of
        JStr s \<Rightarrow>
          (if CHR '':'' \<in> set s \<and> takeWhile (\<lambda>c. c \<noteq> CHR '':'') s \<noteq> [] then
             Some \<lparr>uri_protocol = takeWhile (\<lambda>c. c \<noteq> CHR '':'') s,
                   uri_path = drop 1 (dropWhile (\<lambda>c. c \<noteq> CHR '':'') s)\<rparr>
           else None)
      | _ \<Rightarrow> None)"

definition exampleCollaborators :: Collaborators where
  "exampleCollaborators =
     \<lparr>tryParse = exampleParse,
      factory_supports =
        (\<lambda>h tn. ((h = 0 \<or> h = 1) \<and> tn = JStr ''Number'') \<or> (h = 3 \<and> tn = JStr ''Other'')),
      factory_create = (\<lambda>h input ctx. (Inr (JObj [(''builtBy'', JNum (int h)), (''from'', input)]), ctx)),
      provider_supports = (\<lambda>h p. False),
      provider_provide = (\<lambda>h arg ctx. (Inl (CollaboratorError ''no resolver''), ctx))\<rparr>"

definition numberDef :: TypeDef where
  "numberDef = \<lparr>typeName = ''Number'', typeBody = ''global builder''\<rparr>"

definition numberOverride :: TypeDef where
  "numberOverride = \<lparr>typeName = ''Number'', typeBody = ''application builder''\<rparr>"

definition otherDef :: TypeDef where
  "otherDef = \<lparr>typeName = ''Other'', typeBody = ''request builder''\<rparr>"

definition baseDeclaration :: NamedObjectDef where
  "baseDeclaration =
     \<lparr>def_name = ''base'',
      def_value = JObj [(''_type'', JStr ''Number''), (''value'', JNum 1)],
      dependencies = None\<rparr>"

definition baseDef :: NamedObjectDef where
  "baseDef =
     baseDeclaration\<lparr>dependencies :=
       Some \<lparr>typeDependencies = [JStr ''Number''], protocolDependencies = [], objectDependencies = []\<rparr>\<rparr>"

definition limitDeclaration :: NamedObjectDef where
  "limitDeclaration = \<lparr>def_name = ''limit'', def_value = JNum 10, dependencies = None\<rparr>"

definition limitDef :: NamedObjectDef where
  "limitDef =
     limitDeclaration\<lparr>dependencies :=
       Some \<lparr>typeDependencies = [], protocolDependencies = [], objectDependencies = []\<rparr>\<rparr>"

definition globalDef :: ScopedObjectContextDef where
  "globalDef = ScopedObjectContextDef None [numberDef] [] [baseDef, limitDef]"

definition applicationDef :: ScopedObjectContextDef where
  "applicationDef = ScopedObjectContextDef (Some globalDef) [numberOverride] [] []"

definition requestDef :: ScopedObjectContextDef where
  "requestDef = ScopedObjectContextDef (Some applicationDef) [] [] []"

definition requestDefOther :: ScopedObjectContextDef where
  "requestDefOther = ScopedObjectContextDef (Some applicationDef) [otherDef] [] []"

definition baseObject :: NamedObject where
  "baseObject = \<lparr>obj_def = baseDef, obj_value = JNum 1, obj_scope = ''global''\<rparr>"

definition limitObject :: NamedObject where
  "limitObject = \<lparr>obj_def = limitDef, obj_value = JNum 10, obj_scope = ''global''\<rparr>"

definition globalContext :: ScopedObjectContext where
  "globalContext =
     ScopedObjectContext ''global'' ''/'' None globalDef (Some 0) (Some 0) [baseObject, limitObject]"

definition applicationContext :: ScopedObjectContext where
  "applicationContext =
     ScopedObjectContext ''application'' ''/'' (Some globalContext) applicationDef (Some 1) (Some 1) []"

definition requestContext :: ScopedObjectContext where
  "requestContext =
     ScopedObjectContext ''request'' ''/'' (Some applicationContext) requestDef (Some 2) (Some 2) []"

definition requestContextOther :: ScopedObjectContext where
  "requestContextOther =
     ScopedObjectContext ''request'' ''/'' (Some applicationContext) requestDefOther (Some 3) (Some 3) []"

text \<open>A request scope that declares a named object \<open>base\<close> of its own.\<close>

definition requestBaseDef :: NamedObjectDef where
  "requestBaseDef = \<lparr>def_name = ''base'', def_value = JNum 2, dependencies = None\<rparr>"

definition requestBaseObject :: NamedObject where
  "requestBaseObject = \<lparr>obj_def = requestBaseDef, obj_value = JNum 2, obj_scope = ''request''\<rparr>"

definition shadowingContext :: ScopedObjectContext where
  "shadowingContext =
     ScopedObjectContext ''request'' ''/'' (Some globalContext)
       (ScopedObjectContextDef (Some globalDef) [] [] [requestBaseDef]) (Some 2) (Some 2)
       [requestBaseObject]"

text \<open>
  The objects of a list that a visit with a given set of seen names reaches: each name
  once, at its first occurrence.
\<close>

fun visitAll :: "string list \<Rightarrow> NamedObject list \<Rightarrow> NamedObject list" where
  "visitAll seen [] = []"
| "visitAll seen (x # xs) =
     (if def_name (obj_def x) \<in> set seen then visitAll seen xs
      else x # visitAll (seen @ [def_name (obj_def x)]) xs)"

subsection \<open>What a raw value declares\<close>

text \<open>
  The type tags a raw value carries and the protocols of the references it holds,
  anywhere in the tree, in the order of the walk; and the values in which no
  \<^verbatim>\<open>null\<close> occurs.
\<close>

fun nullFree :: "jsval \<Rightarrow> bool"
  and nullFreeProperties :: "(string \<times> jsval) list \<Rightarrow> bool"
  and nullFreeElements :: "jsval list \<Rightarrow> bool" where
  "nullFree JNull = False"
| "nullFree (JObj fs) = nullFreeProperties fs"
| "nullFree (JArr xs) = nullFreeElements xs"
| "nullFree JUndefined = True"
| "nullFree (JBool b) = True"
| "nullFree (JNum n) = True"
| "nullFree (JStr s) = True"
| "nullFree (JFun f) = True"
| "nullFreeProperties [] = True"
| "nullFreeProperties (kv # fs) = (nullFree (snd kv) \<and> nullFreeProperties fs)"
| "nullFreeElements [] = True"
| "nullFreeElements (x # xs) = (nullFree x \<and> nullFreeElements xs)"

fun typeTags :: "jsval \<Rightarrow> jsval list"
  and typeTagsProperties :: "(string \<times> jsval) list \<Rightarrow> jsval list"
  and typeTagsElements :: "jsval list \<Rightarrow> jsval list" where
  "typeTags (JObj fs) =
     (if not_nullish (prop_get fs ''_type'') then [prop_get fs ''_type''] else []) @ typeTagsProperties fs"
| "typeTags (JArr xs) = typeTagsElements xs"
| "typeTags JNull = []"
| "typeTags JUndefined = []"
| "typeTags (JBool b) = []"
| "typeTags (JNum n) = []"
| "typeTags (JStr s) = []"
| "typeTags (JFun f) = []"
| "typeTagsProperties [] = []"
| "typeTagsProperties (kv # fs) = typeTags (snd kv) @ typeTagsProperties fs"
| "typeTagsElements [] = []"
| "typeTagsElements (x # xs) = typeTags x @ typeTagsElements xs"

fun referenceProtocols :: "(jsval \<Rightarrow> Uri option) \<Rightarrow> jsval \<Rightarrow> string list"
  and referenceProtocolsProperties :: "(jsval \<Rightarrow> Uri option) \<Rightarrow> (string \<times> jsval) list \<Rightarrow> string list"
  and referenceProtocolsElements :: "(jsval \<Rightarrow> Uri option) \<Rightarrow> jsval list \<Rightarrow> string list" where
  "referenceProtocols parse (JStr s) =
     (case parse (JStr s) of Some uri \<Rightarrow> [uri_protocol uri] | None \<Rightarrow> [])"
| "referenceProtocols parse (JObj fs) = referenceProtocolsProperties parse fs"
| "referenceProtocols parse (JArr xs) = referenceProtocolsElements parse xs"
| "referenceProtocols parse JNull = []"
| "referenceProtocols parse JUndefined = []"
| "referenceProtocols parse (JBool b) = []"
| "referenceProtocols parse (JNum n) = []"
| "referenceProtocols parse (JFun f) = []"
| "referenceProtocolsProperties parse [] = []"
| "referenceProtocolsProperties parse (kv # fs) =
     referenceProtocols parse (snd kv) @ referenceProtocolsProperties parse fs"
| "referenceProtocolsElements parse [] = []"
| "referenceProtocolsElements parse (x # xs) =
     referenceProtocols parse x @ referenceProtocolsElements parse xs"

text \<open>
  A result of the walk that is a dependency set holding what the set held before and the
  given tags and protocols.
\<close>

definition collects ::
    "ObjectContextDependency \<Rightarrow> jsval list \<Rightarrow> string list \<Rightarrow> error + ObjectContextDependency \<Rightarrow> bool" where
  "collects dep tags protos r =
     (case r of
        Inl e \<Rightarrow> False
      | Inr dep1 \<Rightarrow>
          set (typeDependencies dep1) = set (typeDependencies dep) \<union> set tags
          \<and> set (protocolDependencies dep1) = set (protocolDependencies dep) \<union> set protos)"

text \<open>
  A declaration is at fault when one of its tags resolves to no builder declaration or
  one of its protocols to no resolver declaration, looked up from the definition with the
  default budget; an error reports the fault when it names such a tag or protocol and the
  declaration.
\<close>

definition hasOffence :: "(jsval \<Rightarrow> Uri option) \<Rightarrow> ScopedObjectContextDef \<Rightarrow> NamedObjectDef \<Rightarrow> bool" where
  "hasOffence parse this d =
     (list_ex (\<lambda>t. getTypeDef this t default_maxDepth = None) (typeTags (def_value d))
      \<or> list_ex (\<lambda>p. getProviderDef this (JStr p) default_maxDepth = None)
            (referenceProtocols parse (def_value d)))"

fun reportsOffence ::
    "(jsval \<Rightarrow> Uri option) \<Rightarrow> ScopedObjectContextDef \<Rightarrow> error \<Rightarrow> NamedObjectDef \<Rightarrow> bool" where
  "reportsOffence parse this (UnrecognizedType t n) d =
     (n = def_name d \<and> t \<in> set (typeTags (def_value d)) \<and> getTypeDef this t default_maxDepth = None)"
| "reportsOffence parse this (UnrecognizedProtocol p n) d =
     (n = def_name d \<and> p \<in> set (referenceProtocols parse (def_value d))
      \<and> getProviderDef this (JStr p) default_maxDepth = None)"
| "reportsOffence parse this e d = False"

subsection \<open>Declarations for the dependency analysis\<close>

text \<open>
  A declaration that carries a dependency set with given object dependencies, to run the
  second pass alone; and a declaration whose raw value carries an unregistered type tag
  beside a property that is \<^verbatim>\<open>null\<close>.
\<close>

definition analysedDeclaration :: "string \<Rightarrow> string list \<Rightarrow> NamedObjectDef" where
  "analysedDeclaration n objectDeps =
     \<lparr>def_name = n, def_value = JNum 0,
      dependencies =
        Some \<lparr>typeDependencies = [], protocolDependencies = [], objectDependencies = objectDeps\<rparr>\<rparr>"



definition nullDeclaration :: NamedObjectDef where
  "nullDeclaration =
     \<lparr>def_name = ''a'',
      def_value = JObj [(''_type'', JStr ''T''), (''x'', JNull)],
      dependencies = None\<rparr>"

section \<open>Properties\<close>

subsection \<open>Lookups in a chain of definitions\<close>

lemma nearest_None_iff: "(nearest local ds = None) = list_all (\<lambda>d. local d = None) ds"
  by (induction ds) (auto split: option.splits)

lemma getTypeDef_nearest:
  "getTypeDef d k n = nearest (\<lambda>x. map_get (typeNameToDef x) k) (reachable d n)"
proof (induction d arbitrary: n)
  case (ScopedObjectContextDef par tds pds ods)
  show ?case
  proof (cases par)
    case None
    then show ?thesis by (simp add: reachable_def split: option.splits)
  next
    case (Some p)
    have ih: "getTypeDef p k (n - 1) = nearest (\<lambda>x. map_get (typeNameToDef x) k) (reachable p (n - 1))"
      using ScopedObjectContextDef.IH[of p "n - 1"] Some by simp
    show ?thesis
    proof (cases "n > 0")
      case True
      then have "nat n = Suc (nat (n - 1))" by simp
      then show ?thesis using Some ih True by (simp add: reachable_def split: option.splits)
    next
      case False
      then show ?thesis using Some by (simp add: reachable_def split: option.splits)
    qed
  qed
qed

lemma getProviderDef_nearest:
  "getProviderDef d k n = nearest (\<lambda>x. map_get (protocolNameToDef x) k) (reachable d n)"
proof (induction d arbitrary: n)
  case (ScopedObjectContextDef par tds pds ods)
  show ?case
  proof (cases par)
    case None
    then show ?thesis by (simp add: reachable_def split: option.splits)
  next
    case (Some p)
    have ih: "getProviderDef p k (n - 1) = nearest (\<lambda>x. map_get (protocolNameToDef x) k) (reachable p (n - 1))"
      using ScopedObjectContextDef.IH[of p "n - 1"] Some by simp
    show ?thesis
    proof (cases "n > 0")
      case True
      then have "nat n = Suc (nat (n - 1))" by simp
      then show ?thesis using Some ih True by (simp add: reachable_def split: option.splits)
    next
      case False
      then show ?thesis using Some by (simp add: reachable_def split: option.splits)
    qed
  qed
qed

lemma getNamedObjectDef_nearest:
  "getNamedObjectDef d k n = nearest (\<lambda>x. map_get (objectNameToDef x) k) (reachable d n)"
proof (induction d arbitrary: n)
  case (ScopedObjectContextDef par tds pds ods)
  show ?case
  proof (cases par)
    case None
    then show ?thesis by (simp add: reachable_def split: option.splits)
  next
    case (Some p)
    have ih: "getNamedObjectDef p k (n - 1) = nearest (\<lambda>x. map_get (objectNameToDef x) k) (reachable p (n - 1))"
      using ScopedObjectContextDef.IH[of p "n - 1"] Some by simp
    show ?thesis
    proof (cases "n > 0")
      case True
      then have "nat n = Suc (nat (n - 1))" by simp
      then show ?thesis using Some ih True by (simp add: reachable_def split: option.splits)
    next
      case False
      then show ?thesis using Some by (simp add: reachable_def split: option.splits)
    qed
  qed
qed

text \<open>
  C8. For every definition, every name and every budget \<open>n\<close>, each of the three lookups
  returns the declaration of the nearest definition that maps the name among the
  definition itself and its ancestors within the budget (the local map first, then the
  parent with budget \<open>n - 1\<close>), and returns not-found exactly when none of those
  definitions maps the name; the default budget, 32, reaches the definition and 32
  ancestors.
\<close>

theorem lookup_nearest_within_budget:
  "getTypeDef d k n = nearest (\<lambda>x. map_get (typeNameToDef x) k) (reachable d n)
   \<and> getProviderDef d k n = nearest (\<lambda>x. map_get (protocolNameToDef x) k) (reachable d n)
   \<and> getNamedObjectDef d k n = nearest (\<lambda>x. map_get (objectNameToDef x) k) (reachable d n)
   \<and> (getTypeDef d k n = None) = list_all (\<lambda>x. map_get (typeNameToDef x) k = None) (reachable d n)
   \<and> (getProviderDef d k n = None) = list_all (\<lambda>x. map_get (protocolNameToDef x) k = None) (reachable d n)
   \<and> (getNamedObjectDef d k n = None) = list_all (\<lambda>x. map_get (objectNameToDef x) k = None) (reachable d n)
   \<and> reachable d default_maxDepth = take 33 (def_chain d)"
  by (simp add: getTypeDef_nearest getProviderDef_nearest getNamedObjectDef_nearest
        nearest_None_iff reachable_def default_maxDepth_def)

subsection \<open>get and needsUpdate\<close>

lemma getFromParents_firstHit:
  "getFromParents C this par n depth =
     (case firstHit par n depth of
        None \<Rightarrow> (Inr None, this)
      | Some (obj, k, owner) \<Rightarrow>
          (case needsUpdate this obj k of
             Inl e \<Rightarrow> (Inl e, this)
           | Inr True \<Rightarrow> rebuild C this obj
           | Inr False \<Rightarrow> (Inr (Some obj), this)))"
proof (induction C this par n depth rule: getFromParents.induct)
  case (1 C this n depth)
  show ?case by simp
next
  case (2 C this sc bd par d fa pr reg n depth)
  show ?case
  proof (cases "registry_get reg n")
    case None
    with 2 show ?thesis by simp
  next
    case (Some obj)
    then show ?thesis by simp
  qed
qed

lemma firstHit_owner:
  "firstHit par n depth = Some (obj, k, owner) \<Longrightarrow> registry_get (namedObjects owner) n = Some obj"
proof (induction par n depth rule: firstHit.induct)
  case (1 n depth)
  then show ?case by simp
next
  case (2 sc bd par d fa pr reg n depth)
  then show ?case by (cases "registry_get reg n") auto
qed

lemma firstHit_parent: "firstHit par n depth = Some h \<Longrightarrow> par \<noteq> None"
  by (cases par) auto

lemma needsUpdate_empty:
  "typeDefs (ctx_def this) = [] \<Longrightarrow> providerDefs (ctx_def this) = [] \<Longrightarrow>
   namedObjectDefs (ctx_def this) = [] \<Longrightarrow> needsUpdate this obj depth = Inr False"
  by (simp add: needsUpdate_def)

lemma needsUpdate_analysed:
  "ctx_parent this \<noteq> None \<Longrightarrow> dependencies (obj_def obj) = Some deps \<Longrightarrow>
   needsUpdate this obj depth =
     Inr ((typeDefs (ctx_def this) \<noteq> [] \<and>
            list_ex (\<lambda>t. getTypeDef (ctx_def this) t (depth - 1) \<noteq> None) (typeDependencies deps))
        \<or> (providerDefs (ctx_def this) \<noteq> [] \<and>
            list_ex (\<lambda>p. getProviderDef (ctx_def this) (JStr p) (depth - 1) \<noteq> None) (protocolDependencies deps))
        \<or> (namedObjectDefs (ctx_def this) \<noteq> [] \<and>
            list_ex (\<lambda>x. getNamedObjectDef (ctx_def this) (JStr x) (depth - 1) \<noteq> None) (objectDependencies deps)))"
  by (auto simp: needsUpdate_def Let_def split: bool.splits sum.splits)

text \<open>
  \<open>needsUpdate\<close> answers false in particular when the declaration of the object carries
  a dependency set and no dependency of it is declared by the requesting scope's
  definition or by one of its first \<open>depth - 1\<close> ancestor definitions.
\<close>

lemma needsUpdate_no_override:
  assumes "dependencies (obj_def obj) = Some deps"
    and "list_all (\<lambda>t. list_all (\<lambda>d. map_get (typeNameToDef d) t = None)
            (reachable (ctx_def this) (depth - 1))) (typeDependencies deps)"
    and "list_all (\<lambda>p. list_all (\<lambda>d. map_get (protocolNameToDef d) (JStr p) = None)
            (reachable (ctx_def this) (depth - 1))) (protocolDependencies deps)"
    and "list_all (\<lambda>x. list_all (\<lambda>d. map_get (objectNameToDef d) (JStr x) = None)
            (reachable (ctx_def this) (depth - 1))) (objectDependencies deps)"
  shows "needsUpdate this obj depth = Inr False"
proof (cases "ctx_parent this = None")
  case True
  then show ?thesis by (simp add: needsUpdate_def)
next
  case False
  have t: "\<not> list_ex (\<lambda>t. getTypeDef (ctx_def this) t (depth - 1) \<noteq> None) (typeDependencies deps)"
    using assms(2) by (simp add: getTypeDef_nearest nearest_None_iff list_ex_iff list_all_iff)
  have p: "\<not> list_ex (\<lambda>p. getProviderDef (ctx_def this) (JStr p) (depth - 1) \<noteq> None)
              (protocolDependencies deps)"
    using assms(3) by (simp add: getProviderDef_nearest nearest_None_iff list_ex_iff list_all_iff)
  have x: "\<not> list_ex (\<lambda>x. getNamedObjectDef (ctx_def this) (JStr x) (depth - 1) \<noteq> None)
              (objectDependencies deps)"
    using assms(4) by (simp add: getNamedObjectDef_nearest nearest_None_iff list_ex_iff list_all_iff)
  show ?thesis
    using needsUpdate_analysed[OF False assms(1), of depth] t p x by simp
qed

text \<open>
  C9. When \<open>get\<close> misses in the requesting scope's own registry, first hits at an
  ancestor (\<open>firstHit\<close> gives the object held there, the number of hops and the
  ancestor) and \<open>needsUpdate\<close> answers false for that object and that depth, the call
  returns the object the ancestor holds and leaves the whole chain, hence every scope's
  registry, as it was. Objects are values here: "the very object" is the equality of the
  returned object with the ancestor's entry.
\<close>

theorem get_shares_ancestor_object:
  assumes "registry_get (namedObjects this) n = None"
    and "firstHit (ctx_parent this) n 1 = Some (obj, k, owner)"
    and "needsUpdate this obj k = Inr False"
  shows "get C this n = (Inr (Some obj), this) \<and> registry_get (namedObjects owner) n = Some obj"
  using assms firstHit_owner[OF assms(2)]
  by (simp add: get_def getFromParents_firstHit)

theorem get_shares_ancestor_object_witness:
  "get exampleCollaborators requestContextOther ''limit'' = (Inr (Some limitObject), requestContextOther)
   \<and> registry_get (namedObjects globalContext) ''limit'' = Some limitObject"
proof -
  have h1: "registry_get (namedObjects requestContextOther) ''limit'' = None"
    by (simp add: registry_get_def requestContextOther_def)
  have h2: "firstHit (ctx_parent requestContextOther) ''limit'' 1 = Some (limitObject, 2, globalContext)"
    by (simp add: registry_get_def requestContextOther_def applicationContext_def globalContext_def
          baseObject_def baseDef_def baseDeclaration_def limitObject_def limitDef_def
          limitDeclaration_def)
  have h3: "needsUpdate requestContextOther limitObject 2 = Inr False"
    by (simp add: needsUpdate_def requestContextOther_def requestDefOther_def limitObject_def
          limitDef_def)
  show ?thesis
    using get_shares_ancestor_object[OF h1 h2 h3] by simp
qed

text \<open>
  C10. If the definition of the requesting scope has no type declaration, no provider
  declaration and no named-object declaration, \<open>needsUpdate\<close> answers false for every
  named object and every depth, whatever the definitions between the requester and the
  owner declare; \<open>get\<close> then returns the local entry, or else the first ancestor's entry
  as it is, or not-found, and leaves the chain as it was.
\<close>

theorem get_ignores_overrides_when_own_def_empty:
  assumes "typeDefs (ctx_def this) = []"
    and "providerDefs (ctx_def this) = []"
    and "namedObjectDefs (ctx_def this) = []"
  shows "needsUpdate this obj depth = Inr False
       \<and> get C this n =
           (case registry_get (namedObjects this) n of
              Some x \<Rightarrow> (Inr (Some x), this)
            | None \<Rightarrow>
                (case firstHit (ctx_parent this) n 1 of
                   Some (x, k, owner) \<Rightarrow> (Inr (Some x), this)
                 | None \<Rightarrow> (Inr None, this)))"
  using assms
  by (auto simp: get_def getFromParents_firstHit needsUpdate_empty split: option.splits)

theorem get_ignores_overrides_when_own_def_empty_witness:
  "map_get (typeNameToDef (ctx_def applicationContext)) (JStr ''Number'') = Some numberOverride
   \<and> needsUpdate requestContext baseObject 2 = Inr False
   \<and> get exampleCollaborators requestContext ''base'' = (Inr (Some baseObject), requestContext)"
proof -
  have h1: "typeDefs (ctx_def requestContext) = []"
    by (simp add: requestContext_def requestDef_def)
  have h2: "providerDefs (ctx_def requestContext) = []"
    by (simp add: requestContext_def requestDef_def)
  have h3: "namedObjectDefs (ctx_def requestContext) = []"
    by (simp add: requestContext_def requestDef_def)
  have t: "map_get (typeNameToDef (ctx_def applicationContext)) (JStr ''Number'') = Some numberOverride"
    by (simp add: applicationContext_def applicationDef_def typeNameToDef_def numberOverride_def)
  have l: "registry_get (namedObjects requestContext) ''base'' = None"
    by (simp add: registry_get_def requestContext_def)
  have f: "firstHit (ctx_parent requestContext) ''base'' 1 = Some (baseObject, 2, globalContext)"
    by (simp add: registry_get_def requestContext_def applicationContext_def globalContext_def
          baseObject_def baseDef_def baseDeclaration_def)
  show ?thesis
    using get_ignores_overrides_when_own_def_empty[OF h1 h2 h3, of baseObject 2 exampleCollaborators "''base''"]
      t l f
    by simp
qed

text \<open>
  C1, as stated, fails. In the example chain the application scope overrides the builder
  \<open>Number\<close>, on which the global object \<open>base\<close> depends, and the request scope below
  it declares nothing: \<open>get\<close> at the request scope returns the global object, labelled
  \<open>global\<close>, and rebuilds nothing. The three definitions are the ones the constructor
  of \<^verbatim>\<open>ScopedObjectContextDef\<close> builds.
\<close>

lemma example_globalDef:
  "new_ScopedObjectContextDef exampleParse None [numberDef] [] [baseDeclaration, limitDeclaration] True
     = Inr globalDef"
  by (simp add: exampleParse_def numberDef_def baseDeclaration_def baseDef_def limitDeclaration_def
        limitDef_def globalDef_def new_ScopedObjectContextDef_def analyzeNamedObjectDependencies_def
        analyzeDeclaration_def secondPass_def prop_get_def setTypeDependency_def set_add_def
        new_ObjectContextDependency_def typeNameToDef_def default_maxDepth_def resolveLoop.simps)

lemma example_applicationDef:
  "new_ScopedObjectContextDef exampleParse (Some globalDef) [numberOverride] [] [] True = Inr applicationDef"
  by (simp add: applicationDef_def new_ScopedObjectContextDef_def analyzeNamedObjectDependencies_def
        secondPass_def resolveLoop.simps)

theorem get_rebuild_not_triggered_counterexample:
  "new_ScopedObjectContextDef exampleParse None [numberDef] [] [baseDeclaration, limitDeclaration] True
     = Inr globalDef
   \<and> new_ScopedObjectContextDef exampleParse (Some globalDef) [numberOverride] [] [] True = Inr applicationDef
   \<and> new_ScopedObjectContextDef exampleParse (Some applicationDef) [] [] [] False = Inr requestDef
   \<and> registry_get (namedObjects globalContext) ''base'' = Some baseObject
   \<and> map_option typeDependencies (dependencies (obj_def baseObject)) = Some [JStr ''Number'']
   \<and> map_get (typeNameToDef (ctx_def applicationContext)) (JStr ''Number'') = Some numberOverride
   \<and> ctx_parent requestContext = Some applicationContext
   \<and> ctx_parent applicationContext = Some globalContext
   \<and> get exampleCollaborators requestContext ''base'' = (Inr (Some baseObject), requestContext)
   \<and> obj_scope baseObject = ''global''
   \<and> ctx_scope requestContext = ''request''"
proof -
  have g: "get exampleCollaborators requestContext ''base'' = (Inr (Some baseObject), requestContext)"
    by (simp add: get_def registry_get_def needsUpdate_def requestContext_def applicationContext_def
          globalContext_def requestDef_def baseObject_def baseDef_def baseDeclaration_def)
  have r: "new_ScopedObjectContextDef exampleParse (Some applicationDef) [] [] [] False = Inr requestDef"
    by (simp add: new_ScopedObjectContextDef_def requestDef_def)
  have o: "registry_get (namedObjects globalContext) ''base'' = Some baseObject"
    by (simp add: registry_get_def globalContext_def baseObject_def baseDef_def baseDeclaration_def)
  have t: "map_get (typeNameToDef (ctx_def applicationContext)) (JStr ''Number'') = Some numberOverride"
    by (simp add: applicationContext_def applicationDef_def typeNameToDef_def numberOverride_def)
  show ?thesis
    using g r o t example_globalDef example_applicationDef
    by (simp add: baseObject_def baseDef_def requestContext_def applicationContext_def)
qed

text \<open>
  C1, amended. Let \<open>get\<close> miss in the requesting scope's own registry and first hit at
  an ancestor, the owner, \<open>k\<close> hops away, on an object whose declaration carries the
  dependency set \<open>deps\<close>. If, for one of the three kinds, the requesting scope's own
  definition declares at least one entry of that kind and a dependency of that kind is
  declared by the requesting scope's definition or by one of its first \<open>k - 1\<close>
  ancestor definitions (the owner's definition is out of reach), then \<open>get\<close> rebuilds:
  when \<open>create\<close> on the declaration's raw value, run at the requesting scope, returns
  \<open>v\<close>, the call returns a new named object with the same declaration, the value
  \<open>v\<close> and the requesting scope's label, and inserts it in the requesting scope's
  registry (when \<open>create\<close> raises, so does \<open>get\<close>). Otherwise, and so whenever an
  override lies at an intermediate scope only and the requesting scope's definition
  declares no entry of that kind, \<open>get\<close> returns the owner's object as it is and
  leaves the chain unchanged. In both cases \<open>get\<close> at the owner returns the original
  object.
\<close>

theorem get_rebuilds_on_override:
  assumes "registry_get (namedObjects this) n = None"
    and "firstHit (ctx_parent this) n 1 = Some (obj, k, owner)"
    and "dependencies (obj_def obj) = Some deps"
  shows "get C this n =
           (if (typeDefs (ctx_def this) \<noteq> [] \<and>
                  list_ex (\<lambda>t. getTypeDef (ctx_def this) t (k - 1) \<noteq> None) (typeDependencies deps))
               \<or> (providerDefs (ctx_def this) \<noteq> [] \<and>
                  list_ex (\<lambda>p. getProviderDef (ctx_def this) (JStr p) (k - 1) \<noteq> None) (protocolDependencies deps))
               \<or> (namedObjectDefs (ctx_def this) \<noteq> [] \<and>
                  list_ex (\<lambda>x. getNamedObjectDef (ctx_def this) (JStr x) (k - 1) \<noteq> None) (objectDependencies deps))
            then
              (case create C this (def_value (obj_def obj)) of
                 (Inl e, this1) \<Rightarrow> (Inl e, this1)
               | (Inr v, this1) \<Rightarrow>
                   (Inr (Some \<lparr>obj_def = obj_def obj, obj_value = v, obj_scope = ctx_scope this\<rparr>),
                    insertNamedObject \<lparr>obj_def = obj_def obj, obj_value = v, obj_scope = ctx_scope this\<rparr> this1))
            else (Inr (Some obj), this))
       \<and> get C owner n = (Inr (Some obj), owner)"
proof -
  have par: "ctx_parent this \<noteq> None" using firstHit_parent[OF assms(2)] .
  note nu = needsUpdate_analysed[OF par assms(3), of k]
  have own: "registry_get (namedObjects owner) n = Some obj" using firstHit_owner[OF assms(2)] .
  have g: "get C this n =
      (case needsUpdate this obj k of
         Inl e \<Rightarrow> (Inl e, this)
       | Inr True \<Rightarrow> rebuild C this obj
       | Inr False \<Rightarrow> (Inr (Some obj), this))"
    using assms(1,2) by (simp add: get_def getFromParents_firstHit)
  have o: "get C owner n = (Inr (Some obj), owner)" using own by (simp add: get_def)
  let ?D = "(typeDefs (ctx_def this) \<noteq> [] \<and>
                  list_ex (\<lambda>t. getTypeDef (ctx_def this) t (k - 1) \<noteq> None) (typeDependencies deps))
               \<or> (providerDefs (ctx_def this) \<noteq> [] \<and>
                  list_ex (\<lambda>p. getProviderDef (ctx_def this) (JStr p) (k - 1) \<noteq> None) (protocolDependencies deps))
               \<or> (namedObjectDefs (ctx_def this) \<noteq> [] \<and>
                  list_ex (\<lambda>x. getNamedObjectDef (ctx_def this) (JStr x) (k - 1) \<noteq> None) (objectDependencies deps))"
  show ?thesis
  proof (cases ?D)
    case True
    then have "needsUpdate this obj k = Inr True" using nu by simp
    then have "get C this n = rebuild C this obj" using g by simp
    then show ?thesis using True o
      by (simp only: if_True) (simp add: rebuild_def Let_def split: prod.splits sum.splits)
  next
    case False
    then have "needsUpdate this obj k = Inr False" using nu by simp
    then have "get C this n = (Inr (Some obj), this)" using g by simp
    then show ?thesis using False o by (simp only: if_False)
  qed
qed

theorem get_rebuilds_on_override_witness:
  "get exampleCollaborators requestContextOther ''base'' =
     (Inr (Some \<lparr>obj_def = baseDef,
                  obj_value = JObj [(''builtBy'', JNum 1), (''from'', def_value baseDef)],
                  obj_scope = ''request''\<rparr>),
      ScopedObjectContext ''request'' ''/'' (Some applicationContext) requestDefOther (Some 3) (Some 3)
        [\<lparr>obj_def = baseDef,
          obj_value = JObj [(''builtBy'', JNum 1), (''from'', def_value baseDef)],
          obj_scope = ''request''\<rparr>])
   \<and> get exampleCollaborators globalContext ''base'' = (Inr (Some baseObject), globalContext)
   \<and> get exampleCollaborators requestContext ''base'' = (Inr (Some baseObject), requestContext)"
proof -
  have h1: "registry_get (namedObjects requestContextOther) ''base'' = None"
    by (simp add: registry_get_def requestContextOther_def)
  have h2: "firstHit (ctx_parent requestContextOther) ''base'' 1 = Some (baseObject, 2, globalContext)"
    by (simp add: registry_get_def requestContextOther_def applicationContext_def globalContext_def
          baseObject_def baseDef_def baseDeclaration_def)
  have h3: "dependencies (obj_def baseObject) =
      Some \<lparr>typeDependencies = [JStr ''Number''], protocolDependencies = [], objectDependencies = []\<rparr>"
    by (simp add: baseObject_def baseDef_def)
  have d: "typeDefs (ctx_def requestContextOther) \<noteq> [] \<and>
            list_ex (\<lambda>t. getTypeDef (ctx_def requestContextOther) t (2 - 1) \<noteq> None) [JStr ''Number'']"
    by (simp add: requestContextOther_def requestDefOther_def applicationDef_def typeNameToDef_def
          otherDef_def numberOverride_def)
  have c: "create exampleCollaborators requestContextOther (def_value (obj_def baseObject)) =
      (Inr (JObj [(''builtBy'', JNum 1), (''from'', def_value baseDef)]), requestContextOther)"
    by (simp add: create_def createTyped_def selectFactory_def hasOwnProperty_def prop_get_def
          exampleCollaborators_def requestContextOther_def applicationContext_def baseObject_def
          baseDef_def baseDeclaration_def)
  have a: "get exampleCollaborators requestContextOther ''base'' =
     (Inr (Some \<lparr>obj_def = baseDef,
                  obj_value = JObj [(''builtBy'', JNum 1), (''from'', def_value baseDef)],
                  obj_scope = ''request''\<rparr>),
      ScopedObjectContext ''request'' ''/'' (Some applicationContext) requestDefOther (Some 3) (Some 3)
        [\<lparr>obj_def = baseDef,
          obj_value = JObj [(''builtBy'', JNum 1), (''from'', def_value baseDef)],
          obj_scope = ''request''\<rparr>])
     \<and> get exampleCollaborators globalContext ''base'' = (Inr (Some baseObject), globalContext)"
    using get_rebuilds_on_override[OF h1 h2 h3, of exampleCollaborators] d c
    by (simp add: insertNamedObject_def requestContextOther_def baseObject_def)
  have k1: "registry_get (namedObjects requestContext) ''base'' = None"
    by (simp add: registry_get_def requestContext_def)
  have k2: "firstHit (ctx_parent requestContext) ''base'' 1 = Some (baseObject, 2, globalContext)"
    by (simp add: registry_get_def requestContext_def applicationContext_def globalContext_def
          baseObject_def baseDef_def baseDeclaration_def)
  have e: "typeDefs (ctx_def requestContext) = [] \<and> providerDefs (ctx_def requestContext) = []
      \<and> namedObjectDefs (ctx_def requestContext) = []"
    by (simp add: requestContext_def requestDef_def)
  have b: "get exampleCollaborators requestContext ''base'' = (Inr (Some baseObject), requestContext)"
    using get_rebuilds_on_override[OF k1 k2 h3, of exampleCollaborators] e by simp
  show ?thesis using a b by simp
qed

subsection \<open>create\<close>







lemma parseEvery_None_iff: "(parseEvery parse xs = None) = list_ex (\<lambda>x. parse x = None) xs"
  by (induction xs) (auto split: option.splits)

text \<open>The inputs that \<open>create\<close> returns unchanged, with the context unchanged.\<close>

lemma create_passes_through:
  "create C this (JArr []) = (Inr (JArr []), this)"
  "list_ex (\<lambda>x. tryParse C x = None) (JStr s # xs) \<Longrightarrow>
     create C this (JArr (JStr s # xs)) = (Inr (JArr (JStr s # xs)), this)"
  "tryParse C (JStr s) = None \<Longrightarrow> create C this (JStr s) = (Inr (JStr s), this)"
  "\<not> hasOwnProperty fs ''_type'' \<Longrightarrow> create C this (JObj fs) = (Inr (JObj fs), this)"
  "\<not> hasOwnProperty fs ''_type'' \<Longrightarrow>
     create C this (JArr (JObj fs # xs)) = (Inr (JArr (JObj fs # xs)), this)"
  "create C this JUndefined = (Inr JUndefined, this)"
  "create C this (JBool b) = (Inr (JBool b), this)"
  "create C this (JNum i) = (Inr (JNum i), this)"
  "create C this (JFun f) = (Inr (JFun f), this)"
  "create C this (JArr (JUndefined # xs)) = (Inr (JArr (JUndefined # xs)), this)"
  "create C this (JArr (JBool b # xs)) = (Inr (JArr (JBool b # xs)), this)"
  "create C this (JArr (JNum i # xs)) = (Inr (JArr (JNum i # xs)), this)"
  "create C this (JArr (JFun f # xs)) = (Inr (JArr (JFun f # xs)), this)"
  "create C this (JArr (JArr ys # xs)) = (Inr (JArr (JArr ys # xs)), this)"
  using parseEvery_None_iff[of "tryParse C" "JStr s # xs"]
  by (simp_all add: create_def createTyped_def)

text \<open>
  C4 asks that \<open>create\<close> return unchanged every input that is neither a reference
  string, nor a sequence it dispatches on, nor an object with a type tag. It does for
  the inputs of the lemma above; \<^verbatim>\<open>null\<close> is such an input too, and there
  \<open>create\<close> raises a \<open>TypeError\<close>, as it does on an array whose first element is
  \<^verbatim>\<open>null\<close>.
\<close>

theorem create_null_raises:
  "create C this JNull = (Inl TypeError, this)
   \<and> create C this (JArr (JNull # xs)) = (Inl TypeError, this)"
  by (simp add: create_def)

subsection \<open>forEach\<close>

lemma fold_visitObject:
  "fold visitObject xs (seen, calls) =
     (seen @ map (\<lambda>x. def_name (obj_def x)) (visitAll seen xs), calls @ visitAll seen xs)"
  by (induction xs arbitrary: seen calls) (auto simp: visitObject_def set_add_def)

lemma visitAll_append:
  "visitAll seen (xs @ ys) =
     visitAll seen xs @ visitAll (seen @ map (\<lambda>x. def_name (obj_def x)) (visitAll seen xs)) ys"
  by (induction xs arbitrary: seen) auto

lemma forEachScope_visitAll:
  "forEachScope (Some this) (seen, calls) =
     (seen @ map (\<lambda>x. def_name (obj_def x)) (visitAll seen (allObjects this)),
      calls @ visitAll seen (allObjects this))"
proof (induction this arbitrary: seen calls)
  case (ScopedObjectContext sc bd par d fa pr reg)
  show ?case
  proof (cases par)
    case None
    then show ?thesis by (simp add: allObjects_def fold_visitObject)
  next
    case (Some p)
    have ih: "\<And>seen calls. forEachScope (Some p) (seen, calls) =
        (seen @ map (\<lambda>x. def_name (obj_def x)) (visitAll seen (allObjects p)),
         calls @ visitAll seen (allObjects p))"
      using ScopedObjectContext.IH[of p] Some by simp
    have all: "allObjects (ScopedObjectContext sc bd (Some p) d fa pr reg) = reg @ allObjects p"
      by (simp add: allObjects_def)
    show ?thesis
      using Some by (simp add: all fold_visitObject ih visitAll_append)
  qed
qed

lemma forEach_visitAll: "forEach this = visitAll [] (allObjects this)"
  by (simp add: forEach_def forEachScope_visitAll)

lemma visitAll_names:
  "set (map (\<lambda>x. def_name (obj_def x)) (visitAll seen xs)) =
     set (map (\<lambda>x. def_name (obj_def x)) xs) - set seen"
  by (induction xs arbitrary: seen) auto

lemma visitAll_distinct: "distinct (map (\<lambda>x. def_name (obj_def x)) (visitAll seen xs))"
proof (induction xs arbitrary: seen)
  case Nil
  show ?case by simp
next
  case (Cons x xs)
  have "def_name (obj_def x) \<notin> set (map (\<lambda>x. def_name (obj_def x)) (visitAll (seen @ [def_name (obj_def x)]) xs))"
    unfolding visitAll_names by simp
  with Cons show ?case by simp
qed

lemma visitAll_first:
  "list_all (\<lambda>obj. find (\<lambda>x. def_name (obj_def x) = def_name (obj_def obj)) xs = Some obj
             \<and> def_name (obj_def obj) \<notin> set seen) (visitAll seen xs)"
proof (induction xs arbitrary: seen)
  case Nil
  show ?case by simp
next
  case (Cons x xs)
  show ?case
  proof (cases "def_name (obj_def x) \<in> set seen")
    case True
    have "list_all (\<lambda>obj. find (\<lambda>y. def_name (obj_def y) = def_name (obj_def obj)) xs = Some obj
             \<and> def_name (obj_def obj) \<notin> set seen) (visitAll seen xs)"
      using Cons.IH[of seen] .
    then have "list_all (\<lambda>obj. find (\<lambda>y. def_name (obj_def y) = def_name (obj_def obj)) (x # xs) = Some obj
             \<and> def_name (obj_def obj) \<notin> set seen) (visitAll seen xs)"
      using True by (auto simp: list_all_iff)
    then show ?thesis using True by simp
  next
    case False
    have "list_all (\<lambda>obj. find (\<lambda>y. def_name (obj_def y) = def_name (obj_def obj)) xs = Some obj
             \<and> def_name (obj_def obj) \<notin> set (seen @ [def_name (obj_def x)]))
            (visitAll (seen @ [def_name (obj_def x)]) xs)"
      using Cons.IH[of "seen @ [def_name (obj_def x)]"] .
    then have "list_all (\<lambda>obj. find (\<lambda>y. def_name (obj_def y) = def_name (obj_def obj)) (x # xs) = Some obj
             \<and> def_name (obj_def obj) \<notin> set seen) (visitAll (seen @ [def_name (obj_def x)]) xs)"
      by (auto simp: list_all_iff)
    then show ?thesis using False by simp
  qed
qed

lemma visitAll_subseq: "subseq (visitAll seen xs) xs"
  by (induction xs arbitrary: seen) auto

text \<open>
  C7. The objects \<open>forEach\<close> hands to its callback, in call order: their names are
  pairwise distinct; they are exactly the names held anywhere in the chain; each object
  is the first one of its name in the chain read nearest scope first, that is the entry
  of the nearest scope declaring the name, a shadowed ancestor entry being skipped; and
  the calls follow the order of the chain.
\<close>

theorem forEach_visits_each_name_once:
  "distinct (map (\<lambda>obj. def_name (obj_def obj)) (forEach this))
   \<and> set (map (\<lambda>obj. def_name (obj_def obj)) (forEach this))
       = set (map (\<lambda>obj. def_name (obj_def obj)) (allObjects this))
   \<and> list_all (\<lambda>obj. find (\<lambda>x. def_name (obj_def x) = def_name (obj_def obj)) (allObjects this) = Some obj)
       (forEach this)
   \<and> subseq (forEach this) (allObjects this)"
proof -
  have "list_all (\<lambda>obj. find (\<lambda>x. def_name (obj_def x) = def_name (obj_def obj)) (allObjects this) = Some obj)
       (visitAll [] (allObjects this))"
    using visitAll_first[of "allObjects this" "[]"] by (simp add: list_all_iff)
  then show ?thesis
    using visitAll_distinct[of "[]" "allObjects this"] visitAll_names[of "[]" "allObjects this"]
      visitAll_subseq[of "[]" "allObjects this"]
    by (simp add: forEach_visitAll)
qed

text \<open>
  The two-level example: both scopes hold an object named \<open>base\<close>; the callback
  receives the request scope's object, then the global \<open>limit\<close>, and never the
  global \<open>base\<close>.
\<close>

lemma forEach_example: "forEach shadowingContext = [requestBaseObject, limitObject]"
  by (simp add: forEach_def visitObject_def set_add_def shadowingContext_def globalContext_def
        requestBaseObject_def requestBaseDef_def baseObject_def baseDef_def baseDeclaration_def
        limitObject_def limitDef_def limitDeclaration_def)

subsection \<open>The second pass\<close>


lemma resolveRecord_Inr:
  "resolveRecord r st = Inr st1 \<Longrightarrow>
     roundDefs st1 = roundDefs st \<and> remaining st1 = remaining st
     \<and> resolvedThisRound st1 = Suc (resolvedThisRound st)"
  by (auto simp: resolveRecord_def Object_keys_of_Set_def Let_def split: sum.splits)

lemma resolveRecord_total:
  "defRef r < length (roundDefs st) \<Longrightarrow> list_all (\<lambda>d. dependencies d \<noteq> None) (roundDefs st) \<Longrightarrow>
     \<exists>st1. resolveRecord r st = Inr st1"
  by (auto simp: resolveRecord_def Object_keys_of_Set_def objectDependenciesAt_def list_all_length Let_def
      split: sum.splits option.splits)

lemma resolveRound_Inr:
  "resolveRound records st = Inr st1 \<Longrightarrow>
     roundDefs st1 = roundDefs st \<and> remaining st1 = remaining st
     \<and> resolvedThisRound st1 = resolvedThisRound st + length records"
proof (induction records arbitrary: st)
  case Nil
  then show ?case by simp
next
  case (Cons r rs)
  then show ?case by (auto split: sum.splits dest!: resolveRecord_Inr)
qed

lemma resolveRound_total:
  "list_all (\<lambda>r. defRef r < length (roundDefs st)) records \<Longrightarrow>
   list_all (\<lambda>d. dependencies d \<noteq> None) (roundDefs st) \<Longrightarrow>
     \<exists>st1. resolveRound records st = Inr st1"
proof (induction records arbitrary: st)
  case Nil
  then show ?case by simp
next
  case (Cons r rs)
  from Cons.prems obtain st1 where r: "resolveRecord r st = Inr st1"
    using resolveRecord_total[of r st] by auto
  have "roundDefs st1 = roundDefs st" using resolveRecord_Inr[OF r] by simp
  with Cons.prems Cons.IH[of st1] r show ?case by auto
qed

lemma resolveLoop_identity:
  assumes "list_all (\<lambda>r. defRef r < length defs) records"
    and "list_all (\<lambda>d. dependencies d \<noteq> None) defs"
  shows "resolveLoop records defs res = Inr defs"
proof (cases "records = []")
  case True
  then show ?thesis by (subst resolveLoop.simps) simp
next
  case False
  obtain st where st: "resolveRound records
      \<lparr>roundDefs = defs, roundResolved = res, remaining = [], resolvedThisRound = 0\<rparr> = Inr st"
    using resolveRound_total[of "\<lparr>roundDefs = defs, roundResolved = res, remaining = [], resolvedThisRound = 0\<rparr>" records]
      assms by auto
  have props: "roundDefs st = defs" "remaining st = []" "resolvedThisRound st = length records"
    using resolveRound_Inr[OF st] by simp_all
  have "resolveLoop records defs res = resolveLoop (remaining st) (roundDefs st) (roundResolved st)"
    using False st props by (subst resolveLoop.simps) simp
  also have "\<dots> = Inr defs" using props by (subst resolveLoop.simps) simp
  finally show ?thesis .
qed

lemma createToResolve_refs:
  "list_all (\<lambda>d. dependencies d \<noteq> None) defs \<Longrightarrow> list_all (\<lambda>r. defRef r < i) (toResolve st) \<Longrightarrow>
     \<exists>st1. createToResolve defs i st = Inr st1
           \<and> list_all (\<lambda>r. defRef r < i + length defs) (toResolve st1)"
proof (induction defs arbitrary: i st)
  case Nil
  then show ?case by simp
next
  case (Cons d ds)
  from Cons.prems obtain dep where dep: "dependencies d = Some dep" by auto
  let ?st = "if length (objectDependencies dep) \<noteq> 0
      then st\<lparr>toResolve := toResolve st @ [\<lparr>unresolvedDeps = fold set_add (objectDependencies dep) [], defRef = i\<rparr>]\<rparr>
      else st\<lparr>resolved := (resolved st)(def_name d \<mapsto> objectDependencies dep)\<rparr>"
  have "list_all (\<lambda>r. defRef r < Suc i) (toResolve ?st)"
    using Cons.prems(2) by (auto simp: list_all_iff)
  then obtain st1 where "createToResolve ds (Suc i) ?st = Inr st1"
      "list_all (\<lambda>r. defRef r < Suc i + length ds) (toResolve st1)"
    using Cons.IH[of "Suc i" ?st] Cons.prems(1) by auto
  then show ?case using dep by (auto simp: Let_def)
qed

text \<open>
  On declarations that all carry a dependency set, the second pass is the identity: it
  raises nothing and changes no set.
\<close>

lemma secondPass_identity:
  "list_all (\<lambda>d. dependencies d \<noteq> None) defs \<Longrightarrow> secondPass defs = Inr defs"
proof -
  assume a: "list_all (\<lambda>d. dependencies d \<noteq> None) defs"
  obtain st1 where c: "createToResolve defs 0 \<lparr>resolved = Map.empty, toResolve = []\<rparr> = Inr st1"
    and r: "list_all (\<lambda>r. defRef r < 0 + length defs) (toResolve st1)"
    using createToResolve_refs[OF a, of 0 "\<lparr>resolved = Map.empty, toResolve = []\<rparr>"] by auto
  have r1: "list_all (\<lambda>r. defRef r < length defs) (toResolve st1)" using r by simp
  show ?thesis
    using c resolveLoop_identity[OF r1 a] by (simp add: secondPass_def)
qed

text \<open>
  The same on two lists that carry object dependencies, a cycle and a chain: both come
  back as they went in, the cycle unreported and the chain unclosed, since
  \<^verbatim>\<open>Object.keys\<close> of a \<^verbatim>\<open>Set\<close> is empty and every record counts as resolved in the
  first round. The first pass hands no such list to the second pass (see below): it
  records no object dependency.
\<close>

lemma secondPass_on_cycle:
  "secondPass [analysedDeclaration ''A'' [''B''], analysedDeclaration ''B'' [''A'']]
     = Inr [analysedDeclaration ''A'' [''B''], analysedDeclaration ''B'' [''A'']]"
  by (simp add: secondPass_def analysedDeclaration_def resolveRecord_def Object_keys_of_Set_def
        objectDependenciesAt_def nameAt_def set_add_def resolveLoop.simps)

lemma secondPass_on_chain:
  "secondPass [analysedDeclaration ''A'' [''B''], analysedDeclaration ''B'' [''C''],
               analysedDeclaration ''C'' [''D''], analysedDeclaration ''D'' []]
     = Inr [analysedDeclaration ''A'' [''B''], analysedDeclaration ''B'' [''C''],
            analysedDeclaration ''C'' [''D''], analysedDeclaration ''D'' []]"
  by (simp add: secondPass_def analysedDeclaration_def resolveRecord_def Object_keys_of_Set_def
        objectDependenciesAt_def nameAt_def set_add_def resolveLoop.simps)

subsection \<open>The first pass\<close>

lemma setTypeDependency_objectDependencies [simp]:
  "objectDependencies (setTypeDependency t dep) = objectDependencies dep"
  by (simp add: setTypeDependency_def)

lemma setProtocolDependency_objectDependencies [simp]:
  "objectDependencies (setProtocolDependency p dep) = objectDependencies dep"
  by (simp add: setProtocolDependency_def)

lemma analyzeDirectDependencies_result:
  "(case analyzeDirectDependencies parse dep v of
      Inl e \<Rightarrow> e = TypeError
    | Inr dep1 \<Rightarrow> objectDependencies dep1 = objectDependencies dep)"
  "(case analyzeProperties parse dep fs of
      Inl e \<Rightarrow> e = TypeError
    | Inr dep1 \<Rightarrow> objectDependencies dep1 = objectDependencies dep)"
  "(case analyzeElements parse dep xs of
      Inl e \<Rightarrow> e = TypeError
    | Inr dep1 \<Rightarrow> objectDependencies dep1 = objectDependencies dep)"
proof (induction parse dep v and parse dep fs and parse dep xs
    rule: analyzeDirectDependencies_analyzeProperties_analyzeElements.induct)
  case (1 tryParse dep s)
  show ?case by (cases "tryParse (JStr s)") simp_all
next
  case (2 tryParse dep fs)
  note ih = "2.IH"[OF refl refl]
  show ?case
  proof (cases "not_nullish (prop_get fs ''_type'')")
    case True
    with ih show ?thesis by (simp add: Let_def split: sum.splits)
  next
    case False
    with ih show ?thesis by (simp add: Let_def split: sum.splits)
  qed
next
  case (10 tryParse dep kv fs)
  show ?case
  proof (cases "analyzeDirectDependencies tryParse dep (snd kv)")
    case (Inl e)
    then show ?thesis using "10.IH"(1) by simp
  next
    case (Inr d)
    then show ?thesis using "10.IH"(1) "10.IH"(2)[OF Inr] by (simp split: sum.splits)
  qed
next
  case (12 tryParse dep x xs)
  show ?case
  proof (cases "analyzeDirectDependencies tryParse dep x")
    case (Inl e)
    then show ?thesis using "12.IH"(1) by simp
  next
    case (Inr d)
    then show ?thesis using "12.IH"(1) "12.IH"(2)[OF Inr] by (simp split: sum.splits)
  qed
qed simp_all

lemma analyzeDeclaration_result:
  "(case analyzeDeclaration parse this d of
      Inl e \<Rightarrow> e = TypeError \<or> (\<exists>t. e = UnrecognizedType t (def_name d))
                 \<or> (\<exists>p. e = UnrecognizedProtocol p (def_name d))
    | Inr def1 \<Rightarrow> map_option objectDependencies (dependencies def1) = Some [])"
  using analyzeDirectDependencies_result(1)[where parse = parse and dep = new_ObjectContextDependency and v = "def_value d"]
  by (auto simp: analyzeDeclaration_def new_ObjectContextDependency_def split: sum.splits option.splits)

lemma firstPass_result:
  "(case firstPass parse this defs of
      Inl e \<Rightarrow> e = TypeError \<or> (\<exists>t n. e = UnrecognizedType t n) \<or> (\<exists>p n. e = UnrecognizedProtocol p n)
    | Inr defs1 \<Rightarrow> list_all (\<lambda>d. map_option objectDependencies (dependencies d) = Some []) defs1)"
proof (induction defs)
  case Nil
  show ?case by simp
next
  case (Cons d ds)
  show ?case
    using Cons.IH analyzeDeclaration_result[where parse = parse and this = this and d = d]
    by (auto split: sum.splits)
qed

text \<open>
  The first pass records no object dependency, and the analysis as a whole never raises
  the error of the closure loop.
\<close>

lemma analysis_never_reports_cycle:
  "analyzeNamedObjectDependencies parse this \<noteq> Inl (UndefinedOrCyclic names)"
proof (cases "firstPass parse this (namedObjectDefs this)")
  case (Inl e)
  then show ?thesis
    using firstPass_result[where parse = parse and this = this and defs = "namedObjectDefs this"]
    by (auto simp: analyzeNamedObjectDependencies_def)
next
  case (Inr defs)
  have "list_all (\<lambda>d. dependencies d \<noteq> None) defs"
    using firstPass_result[where parse = parse and this = this and defs = "namedObjectDefs this"] Inr by (auto simp: list_all_iff)
  then show ?thesis using Inr by (simp add: analyzeNamedObjectDependencies_def secondPass_identity)
qed

text \<open>
  With no object dependency on any declaration the second pass has nothing to resolve:
  every declaration goes to \<^verbatim>\<open>resolved\<close> at once and the \<^verbatim>\<open>while\<close> loop does not
  run. So a construction with the analysis enabled either fails in the first pass or
  yields declarations whose object-dependency sets are all empty, whatever the input.
\<close>

lemma createToResolve_no_object_dependencies:
  "list_all (\<lambda>d. map_option objectDependencies (dependencies d) = Some []) defs \<Longrightarrow>
     \<exists>res. createToResolve defs i st = Inr (st\<lparr>resolved := res\<rparr>)"
proof (induction defs arbitrary: i st)
  case Nil
  have "st = st\<lparr>resolved := resolved st\<rparr>" by simp
  then show ?case by (metis createToResolve.simps(1))
next
  case (Cons d ds)
  from Cons.prems obtain dep where dep: "dependencies d = Some dep" "objectDependencies dep = []"
    by (cases "dependencies d") auto
  from Cons.prems have rest: "list_all (\<lambda>d. map_option objectDependencies (dependencies d) = Some []) ds"
    by simp
  obtain res where "createToResolve ds (Suc i) (st\<lparr>resolved := (resolved st)(def_name d \<mapsto> [])\<rparr>)
      = Inr (st\<lparr>resolved := (resolved st)(def_name d \<mapsto> [])\<rparr>\<lparr>resolved := res\<rparr>)"
    using Cons.IH[OF rest, of "Suc i" "st\<lparr>resolved := (resolved st)(def_name d \<mapsto> [])\<rparr>"] by auto
  then show ?case using dep by (auto simp: Let_def)
qed

lemma secondPass_no_object_dependencies:
  assumes "list_all (\<lambda>d. map_option objectDependencies (dependencies d) = Some []) defs"
  shows "secondPass defs = Inr defs"
proof -
  obtain res where "createToResolve defs 0 \<lparr>resolved = Map.empty, toResolve = []\<rparr>
      = Inr (\<lparr>resolved = Map.empty, toResolve = []\<rparr>\<lparr>resolved := res\<rparr>)"
    using createToResolve_no_object_dependencies[OF assms] by blast
  then show ?thesis by (simp add: secondPass_def resolveLoop.simps)
qed

lemma construction_records_no_object_dependency:
  "(case new_ScopedObjectContextDef parse par tds pds ods True of
      Inl e \<Rightarrow> e = TypeError \<or> (\<exists>t n. e = UnrecognizedType t n) \<or> (\<exists>p n. e = UnrecognizedProtocol p n)
    | Inr d \<Rightarrow> list_all (\<lambda>x. map_option objectDependencies (dependencies x) = Some []) (namedObjectDefs d))"
proof (cases "firstPass parse (ScopedObjectContextDef par tds pds ods) ods")
  case (Inl e)
  then show ?thesis
    using firstPass_result[where parse = parse and this = "ScopedObjectContextDef par tds pds ods" and defs = ods]
    by (simp add: new_ScopedObjectContextDef_def analyzeNamedObjectDependencies_def)
next
  case (Inr defs)
  have e: "list_all (\<lambda>x. map_option objectDependencies (dependencies x) = Some []) defs"
    using firstPass_result[where parse = parse and this = "ScopedObjectContextDef par tds pds ods" and defs = ods]
      Inr by simp
  show ?thesis
    using Inr e secondPass_no_object_dependencies[OF e]
    by (simp add: new_ScopedObjectContextDef_def analyzeNamedObjectDependencies_def)
qed



text \<open>
  On raw values without \<^verbatim>\<open>null\<close> the walk raises nothing and records exactly the
  tags and protocols of the value, and the construction with the analysis enabled fails
  with an error that reports a fault whenever some declaration is at fault.
\<close>

lemma set_setTypeDependency [simp]:
  "set (typeDependencies (setTypeDependency t dep)) = insert t (set (typeDependencies dep))"
  by (auto simp: setTypeDependency_def set_add_def)

lemma protocol_setTypeDependency [simp]:
  "protocolDependencies (setTypeDependency t dep) = protocolDependencies dep"
  by (simp add: setTypeDependency_def)

lemma set_setProtocolDependency [simp]:
  "set (protocolDependencies (setProtocolDependency p dep)) = insert p (set (protocolDependencies dep))"
  by (auto simp: setProtocolDependency_def set_add_def)

lemma type_setProtocolDependency [simp]:
  "typeDependencies (setProtocolDependency p dep) = typeDependencies dep"
  by (simp add: setProtocolDependency_def)

lemma analyzeDirectDependencies_collects:
  "nullFree v \<Longrightarrow>
     collects dep (typeTags v) (referenceProtocols parse v) (analyzeDirectDependencies parse dep v)"
  "nullFreeProperties fs \<Longrightarrow>
     collects dep (typeTagsProperties fs) (referenceProtocolsProperties parse fs)
       (analyzeProperties parse dep fs)"
  "nullFreeElements xs \<Longrightarrow>
     collects dep (typeTagsElements xs) (referenceProtocolsElements parse xs)
       (analyzeElements parse dep xs)"
proof (induction parse dep v and parse dep fs and parse dep xs
    rule: analyzeDirectDependencies_analyzeProperties_analyzeElements.induct)
  case (1 tryParse dep s)
  show ?case by (cases "tryParse (JStr s)") (simp_all add: collects_def)
next
  case (2 tryParse dep fs)
  note ih = "2.IH"[OF refl refl]
  from "2.prems" have nf: "nullFreeProperties fs" by simp
  show ?case
  proof (cases "not_nullish (prop_get fs ''_type'')")
    case True
    with ih[OF nf] show ?thesis
      by (cases "analyzeProperties tryParse (setTypeDependency (prop_get fs ''_type'') dep) fs")
         (auto simp: collects_def Let_def)
  next
    case False
    with ih[OF nf] show ?thesis
      by (cases "analyzeProperties tryParse dep fs") (auto simp: collects_def Let_def)
  qed
next
  case (3 tryParse dep xs)
  then show ?case by simp
next
  case (10 tryParse dep kv fs)
  from "10.prems" have nf1: "nullFree (snd kv)" and nf2: "nullFreeProperties fs" by simp_all
  show ?case
  proof (cases "analyzeDirectDependencies tryParse dep (snd kv)")
    case (Inl e)
    then show ?thesis using "10.IH"(1)[OF nf1] by (simp add: collects_def)
  next
    case (Inr d)
    show ?thesis
      using "10.IH"(1)[OF nf1] "10.IH"(2)[OF Inr nf2] Inr
      by (cases "analyzeProperties tryParse d fs") (auto simp: collects_def)
  qed
next
  case (12 tryParse dep x xs)
  from "12.prems" have nf1: "nullFree x" and nf2: "nullFreeElements xs" by simp_all
  show ?case
  proof (cases "analyzeDirectDependencies tryParse dep x")
    case (Inl e)
    then show ?thesis using "12.IH"(1)[OF nf1] by (simp add: collects_def)
  next
    case (Inr d)
    show ?thesis
      using "12.IH"(1)[OF nf1] "12.IH"(2)[OF Inr nf2] Inr
      by (cases "analyzeElements tryParse d xs") (auto simp: collects_def)
  qed
qed (simp_all add: collects_def)


lemma find_Some_set: "find P xs = Some x \<Longrightarrow> x \<in> set xs \<and> P x"
  by (induction xs) (auto split: if_splits)

lemma find_None_set: "(find P xs = None) = (\<forall>x \<in> set xs. \<not> P x)"
  by (induction xs) auto

lemma analyzeDeclaration_nullFree:
  assumes "nullFree (def_value d)"
  shows "(case analyzeDeclaration parse this d of
            Inl e \<Rightarrow> hasOffence parse this d \<and> reportsOffence parse this e d
          | Inr d1 \<Rightarrow> \<not> hasOffence parse this d)"
proof -
  obtain dep where dep: "analyzeDirectDependencies parse new_ObjectContextDependency (def_value d) = Inr dep"
    and ts: "set (typeDependencies dep) = set (typeTags (def_value d))"
    and ps: "set (protocolDependencies dep) = set (referenceProtocols parse (def_value d))"
    using analyzeDirectDependencies_collects(1)[OF assms, of new_ObjectContextDependency parse]
    by (cases "analyzeDirectDependencies parse new_ObjectContextDependency (def_value d)")
       (auto simp: collects_def new_ObjectContextDependency_def)
  show ?thesis
  proof (cases "find (\<lambda>t. getTypeDef this t default_maxDepth = None) (typeDependencies dep)")
    case (Some t)
    from find_Some_set[OF Some] ts
    have "t \<in> set (typeTags (def_value d))" "getTypeDef this t default_maxDepth = None" by auto
    then show ?thesis using dep Some
      by (auto simp: analyzeDeclaration_def hasOffence_def list_ex_iff)
  next
    case None
    then have noT: "\<not> list_ex (\<lambda>t. getTypeDef this t default_maxDepth = None) (typeTags (def_value d))"
      using ts by (auto simp: find_None_set list_ex_iff)
    show ?thesis
    proof (cases "find (\<lambda>p. getProviderDef this (JStr p) default_maxDepth = None) (protocolDependencies dep)")
      case (Some p)
      from find_Some_set[OF Some] ps
      have "p \<in> set (referenceProtocols parse (def_value d))"
           "getProviderDef this (JStr p) default_maxDepth = None" by auto
      then show ?thesis using dep None Some
        by (auto simp: analyzeDeclaration_def hasOffence_def list_ex_iff)
    next
      case None2: None
      then have "\<not> list_ex (\<lambda>p. getProviderDef this (JStr p) default_maxDepth = None)
                   (referenceProtocols parse (def_value d))"
        using ps by (auto simp: find_None_set list_ex_iff)
      then show ?thesis using dep None None2 noT
        by (simp add: analyzeDeclaration_def hasOffence_def)
    qed
  qed
qed

lemma firstPass_nullFree:
  assumes "list_all (\<lambda>d. nullFree (def_value d)) defs"
  shows "(case firstPass parse this defs of
            Inl e \<Rightarrow> list_ex (reportsOffence parse this e) defs
          | Inr defs1 \<Rightarrow> \<not> list_ex (hasOffence parse this) defs)"
  using assms
proof (induction defs)
  case Nil
  show ?case by simp
next
  case (Cons d ds)
  then have nf: "nullFree (def_value d)" and ih: "(case firstPass parse this ds of
            Inl e \<Rightarrow> list_ex (reportsOffence parse this e) ds
          | Inr defs1 \<Rightarrow> \<not> list_ex (hasOffence parse this) ds)" by simp_all
  show ?case
  proof (cases "analyzeDeclaration parse this d")
    case (Inl e)
    then show ?thesis using analyzeDeclaration_nullFree[OF nf, of parse this] by simp
  next
    case (Inr d1)
    then have no: "\<not> hasOffence parse this d"
      using analyzeDeclaration_nullFree[OF nf, of parse this] by simp
    show ?thesis
      using Inr no ih by (cases "firstPass parse this ds") simp_all
  qed
qed

lemma unresolvable_dependency_is_reported:
  assumes "list_all (\<lambda>d. nullFree (def_value d)) ods"
    and "list_ex (hasOffence parse (ScopedObjectContextDef par tds pds ods)) ods"
  shows "\<exists>e. new_ScopedObjectContextDef parse par tds pds ods True = Inl e
           \<and> list_ex (reportsOffence parse (ScopedObjectContextDef par tds pds ods) e) ods"
  using firstPass_nullFree[OF assms(1), of parse "ScopedObjectContextDef par tds pds ods"] assms(2)
  by (cases "firstPass parse (ScopedObjectContextDef par tds pds ods) ods")
     (simp_all add: new_ScopedObjectContextDef_def analyzeNamedObjectDependencies_def)

text \<open>
  C6 asks that a type tag with no builder declaration make the construction fail with
  the error that names the tag and the named object. For the declaration \<open>a\<close> whose
  raw value carries the unregistered tag \<open>T\<close> beside a property that is
  \<^verbatim>\<open>null\<close>, the construction fails with a \<open>TypeError\<close> instead, whatever the
  reference parser: the walk over the raw value reads \<^verbatim>\<open>null['_type']\<close> before the
  type check runs.
\<close>

theorem null_in_raw_value_raises_TypeError:
  "new_ScopedObjectContextDef parse None [] [] [nullDeclaration] True = Inl TypeError"
  by (simp add: new_ScopedObjectContextDef_def analyzeNamedObjectDependencies_def
        analyzeDeclaration_def nullDeclaration_def prop_get_def Let_def split: option.splits)

end
